theory Spec2Isabelle
  imports Main "HOL-Library.Word" "HOL-Library.Multiset"
begin

unbundle bit_operations_syntax

section \<open>Static double-array trie (dastrie.h): the embedded program\<close>

text \<open>
  The library is one header, \<^verbatim>\<open>include/dastrie.h\<close>. Its classes are embedded as follows.
  \<^item> \<^verbatim>\<open>uint8_t\<close> is \<open>8 word\<close>, \<^verbatim>\<open>int32_t\<close> (\<^verbatim>\<open>base_type\<close>) and \<^verbatim>\<open>uint32_t\<close> are \<open>32 word\<close>; a
    \<^verbatim>\<open>base_type\<close> is read as a signed number with \<open>sint\<close>. \<^verbatim>\<open>size_type\<close> (\<^verbatim>\<open>size_t\<close>) is \<open>nat\<close>:
    no size of this development comes near the wrap-around of \<^verbatim>\<open>size_t\<close>.
  \<^item> A \<^verbatim>\<open>const char*\<close> argument is a byte list standing for the memory the pointer addresses,
    followed by the terminating NUL; the C string it denotes is the part before the first
    zero byte (\<open>c_str\<close>).
  \<^item> An exception, and the undefined behaviour of an access outside an array, are values of
    the type \<open>error\<close>; a function that can raise one returns \<open>error + 'a\<close>.
  \<^item> A member function that changes its object returns the changed object.
\<close>

type_synonym byte = "8 word"

datatype error =
    NoSpaceForLeaves      \<comment> \<open>builder::exception "The double array has no space to store leaves"\<close>
  | RecordsNotSorted      \<comment> \<open>builder::exception "The records are not sorted in dictionary order of keys"\<close>
  | NoSpaceForChildren    \<comment> \<open>builder::exception "The double array has no space to store child nodes"\<close>
  | DuplicatedKeys        \<comment> \<open>builder::exception "Duplicated keys detected"\<close>
  | TrieException         \<comment> \<open>trie::exception("") of next_prefix\<close>
  | UndefinedBehaviour    \<comment> \<open>an access outside an array or through a null pointer\<close>
  | OutOfFuel             \<comment> \<open>the loop bound of the model was reached (no behaviour of the code)\<close>

definition INVALID_INDEX :: nat where "INVALID_INDEX = 0"
definition INITIAL_INDEX :: nat where "INITIAL_INDEX = 1"
definition NUMCHARS :: nat where "NUMCHARS = 256"
definition CHUNKSIZE :: nat where "CHUNKSIZE = 8"
definition SDAT_CHUNKSIZE :: nat where "SDAT_CHUNKSIZE = 16"

subsection \<open>C strings\<close>

definition c_str :: "byte list \<Rightarrow> byte list" where
  "c_str s = takeWhile (\<lambda>b. b \<noteq> 0) s"

definition c_strlen :: "byte list \<Rightarrow> nat" where
  "c_strlen s = length (c_str s)"

text \<open>\<^verbatim>\<open>s[i]\<close> for \<open>i\<close> up to the terminator; the terminator itself reads as 0.\<close>

definition char_at :: "byte list \<Rightarrow> nat \<Rightarrow> byte" where
  "char_at s i = (if i < length s then s ! i else 0)"

text \<open>\<^verbatim>\<open>std::strlen(&mem[off])\<close> on a memory block: undefined when no zero byte follows.\<close>

definition mem_strlen :: "byte list \<Rightarrow> nat \<Rightarrow> nat option" where
  "mem_strlen mem off =
     (if 0 \<in> set (drop off mem) then Some (c_strlen (drop off mem)) else None)"

subsection \<open>doublearray4_traits and doublearray5_traits\<close>

record 'e doublearray_traits =
  chunk_id :: "byte list"
  max_base :: "32 word"
  default_value :: 'e
  get_base :: "'e \<Rightarrow> 32 word"
  get_check :: "'e \<Rightarrow> byte"
  set_base :: "'e \<Rightarrow> 32 word \<Rightarrow> 'e"
  set_check :: "'e \<Rightarrow> byte \<Rightarrow> 'e"
  sizeof_element :: nat
  element_of_bytes :: "byte list \<Rightarrow> 'e"

text \<open>4 bytes per element: \<^verbatim>\<open>element_type = int32_t\<close>; \<^verbatim>\<open>elem >> 8\<close> is the arithmetic shift.\<close>

definition get_base4 :: "32 word \<Rightarrow> 32 word" where
  "get_base4 elem = signed_drop_bit 8 elem"

definition get_check4 :: "32 word \<Rightarrow> byte" where
  "get_check4 elem = ucast (elem AND 0x000000FF)"

definition set_base4 :: "32 word \<Rightarrow> 32 word \<Rightarrow> 32 word" where
  "set_base4 elem v = (elem AND 0x000000FF) OR push_bit 8 v"

definition set_check4 :: "32 word \<Rightarrow> byte \<Rightarrow> 32 word" where
  "set_check4 elem v = (elem AND 0xFFFFFF00) OR ucast v"

text \<open>Little-endian reading of four bytes of a memory image as a 32-bit number.\<close>

definition le32 :: "byte \<Rightarrow> byte \<Rightarrow> byte \<Rightarrow> byte \<Rightarrow> 32 word" where
  "le32 a b c d = ucast a OR push_bit 8 (ucast b) OR push_bit 16 (ucast c) OR push_bit 24 (ucast d)"

definition doublearray4_traits :: "(32 word) doublearray_traits" where
  "doublearray4_traits = \<lparr>
     chunk_id = map (of_nat \<circ> of_char) ''SDA4'',
     max_base = 0x007FFFFF,
     default_value = 0,
     get_base = get_base4,
     get_check = get_check4,
     set_base = set_base4,
     set_check = set_check4,
     sizeof_element = 4,
     element_of_bytes = (\<lambda>bs. le32 (char_at bs 0) (char_at bs 1) (char_at bs 2) (char_at bs 3)) \<rparr>"

text \<open>5 bytes per element: \<^verbatim>\<open>struct element_type { uint8_t v[5]; }\<close>, BASE in \<^verbatim>\<open>v[0:4]\<close>
  (copied with \<^verbatim>\<open>memcpy\<close>, least significant byte first), CHECK in \<^verbatim>\<open>v[4]\<close>.\<close>

record element5 =
  v0 :: byte
  v1 :: byte
  v2 :: byte
  v3 :: byte
  v4 :: byte

definition get_base5 :: "element5 \<Rightarrow> 32 word" where
  "get_base5 elem = le32 (v0 elem) (v1 elem) (v2 elem) (v3 elem)"

definition get_check5 :: "element5 \<Rightarrow> byte" where
  "get_check5 elem = v4 elem"

definition set_base5 :: "element5 \<Rightarrow> 32 word \<Rightarrow> element5" where
  "set_base5 elem v = elem\<lparr> v0 := ucast v, v1 := ucast (drop_bit 8 v),
                            v2 := ucast (drop_bit 16 v), v3 := ucast (drop_bit 24 v) \<rparr>"

definition set_check5 :: "element5 \<Rightarrow> byte \<Rightarrow> element5" where
  "set_check5 elem v = elem\<lparr> v4 := v \<rparr>"

definition doublearray5_traits :: "element5 doublearray_traits" where
  "doublearray5_traits = \<lparr>
     chunk_id = map (of_nat \<circ> of_char) ''SDA5'',
     max_base = 0x7FFFFFFF,
     default_value = \<lparr> v0 = 0, v1 = 0, v2 = 0, v3 = 0, v4 = 0 \<rparr>,
     get_base = get_base5,
     get_check = get_check5,
     set_base = set_base5,
     set_check = set_check5,
     sizeof_element = 5,
     element_of_bytes = (\<lambda>bs. \<lparr> v0 = char_at bs 0, v1 = char_at bs 1, v2 = char_at bs 2,
                                   v3 = char_at bs 3, v4 = char_at bs 4 \<rparr>) \<rparr>"

subsection \<open>class array: an unextendable array over a memory block\<close>

text \<open>
  \<open>a_block\<close> is the memory \<^verbatim>\<open>m_block\<close> points to, as far as it is allocated (\<open>None\<close> is the null
  pointer); \<open>a_size\<close> is \<^verbatim>\<open>m_size\<close>, \<open>a_own\<close> is \<^verbatim>\<open>m_own\<close>. \<^verbatim>\<open>operator[]\<close> makes no check
  against \<^verbatim>\<open>m_size\<close>: it reads the memory, and is undefined outside of it.
\<close>

record 'a array =
  a_block :: "'a list option"
  a_size :: nat
  a_own :: bool

definition array_empty :: "'a array" where
  "array_empty = \<lparr> a_block = None, a_size = 0, a_own = False \<rparr>"

definition array_assign :: "'a list \<Rightarrow> nat \<Rightarrow> bool \<Rightarrow> 'a array" where
  "array_assign block n own =
     (if own then \<lparr> a_block = Some (take n block), a_size = n, a_own = True \<rparr>
      else \<lparr> a_block = Some block, a_size = n, a_own = False \<rparr>)"

definition array_at :: "'a array \<Rightarrow> nat \<Rightarrow> error + 'a" where
  "array_at a i =
     (case a_block a of
        None \<Rightarrow> Inl UndefinedBehaviour
      | Some xs \<Rightarrow> if i < length xs then Inr (xs ! i) else Inl UndefinedBehaviour)"

definition array_allocated :: "'a array \<Rightarrow> bool" where
  "array_allocated a = (a_block a \<noteq> None)"

subsection \<open>class itail: the reader of a tail array\<close>

record itail =
  t_cont :: "byte array"
  t_offset :: nat

definition itail_init :: itail where
  "itail_init = \<lparr> t_cont = array_empty, t_offset = 0 \<rparr>"

definition itail_assign :: "itail \<Rightarrow> byte list \<Rightarrow> nat \<Rightarrow> bool \<Rightarrow> itail" where
  "itail_assign t ptr n own = t\<lparr> t_cont := array_assign ptr n own \<rparr>"

definition seekg :: "itail \<Rightarrow> nat \<Rightarrow> itail" where
  "seekg t offset = (if offset < a_size (t_cont t) then t\<lparr> t_offset := offset \<rparr> else t)"

definition tellg :: "itail \<Rightarrow> nat" where
  "tellg t = t_offset t"

definition itail_strlen :: "itail \<Rightarrow> error + nat" where
  "itail_strlen t =
     (case a_block (t_cont t) of
        None \<Rightarrow> Inl UndefinedBehaviour
      | Some mem \<Rightarrow> (case mem_strlen mem (t_offset t) of
                      None \<Rightarrow> Inl UndefinedBehaviour
                    | Some n \<Rightarrow> Inr n))"

text \<open>
  \<^verbatim>\<open>memcmp(&m_cont[m_offset], str, n) == 0\<close>. The \<open>n\<close> bytes of the tail must lie in its memory.
  Of the string, the bytes up to and including its terminator are compared; the callers
  never have an equal tail beyond that terminator.
\<close>

definition tail_memcmp_eq :: "itail \<Rightarrow> byte list \<Rightarrow> nat \<Rightarrow> error + bool" where
  "tail_memcmp_eq t str n =
     (case a_block (t_cont t) of
        None \<Rightarrow> Inl UndefinedBehaviour
      | Some mem \<Rightarrow>
          if t_offset t + n \<le> length mem
          then Inr (take n (drop (t_offset t) mem) = take n (c_str str @ [0]))
          else Inl UndefinedBehaviour)"

definition match_string :: "itail \<Rightarrow> byte list \<Rightarrow> error + bool" where
  "match_string t str =
     (let len = c_strlen str + 1 in
      if t_offset t + len < a_size (t_cont t) then
        (case tail_memcmp_eq t str len of
           Inl e \<Rightarrow> Inl e
         | Inr eq \<Rightarrow> if eq then Inr True else Inr False)
      else Inr False)"

definition match_string_partial :: "itail \<Rightarrow> byte list \<Rightarrow> error + bool" where
  "match_string_partial t str =
     (case itail_strlen t of
        Inl e \<Rightarrow> Inl e
      | Inr len \<Rightarrow>
          if t_offset t + len + 1 < a_size (t_cont t) then
            (case tail_memcmp_eq t str len of
               Inl e \<Rightarrow> Inl e
             | Inr eq \<Rightarrow>
                 if eq then
                   (case array_at (t_cont t) (t_offset t + len) of
                      Inl e \<Rightarrow> Inl e
                    | Inr b \<Rightarrow> if b = 0 then Inr True else Inr False)
                 else Inr False)
          else Inr False)"

text \<open>\<^verbatim>\<open>itail::read(data, size)\<close>: the bytes read (\<open>None\<close> when nothing is copied) and the tail.\<close>

definition itail_read :: "itail \<Rightarrow> nat \<Rightarrow> error + (byte list option \<times> itail)" where
  "itail_read t n =
     (if t_offset t + n \<le> a_size (t_cont t) then
        (case a_block (t_cont t) of
           None \<Rightarrow> (if n = 0 then Inr (Some [], t) else Inl UndefinedBehaviour)
         | Some mem \<Rightarrow>
             if t_offset t + n \<le> length mem
             then Inr (Some (take n (drop (t_offset t) mem)), t\<lparr> t_offset := t_offset t + n \<rparr>)
             else Inl UndefinedBehaviour)
      else Inr (None, t))"

subsection \<open>Value types: \<^verbatim>\<open>operator<<\<close> on otail and \<^verbatim>\<open>operator>>\<close> on itail\<close>

text \<open>
  A value type is given by the bytes \<^verbatim>\<open>operator<<\<close> appends to the tail and by what
  \<^verbatim>\<open>operator>>\<close> stores into the variable it receives (\<open>None\<close> when it leaves the variable as
  it was) together with the moved reader.
\<close>

record 'v value_type =
  write_value :: "'v \<Rightarrow> byte list"
  read_value :: "itail \<Rightarrow> error + ('v option \<times> itail)"

text \<open>\<^verbatim>\<open>empty_type\<close>: both operators return the stream as it is.\<close>

definition empty_type :: "unit value_type" where
  "empty_type = \<lparr> write_value = (\<lambda>_. []), read_value = (\<lambda>t. Inr (None, t)) \<rparr>"

text \<open>\<^verbatim>\<open>int\<close>: \<^verbatim>\<open>write(&value, sizeof(value))\<close> and \<^verbatim>\<open>read(&value, sizeof(value))\<close>, four bytes.\<close>

definition bytes_of_int32 :: "32 word \<Rightarrow> byte list" where
  "bytes_of_int32 v = [ucast v, ucast (drop_bit 8 v), ucast (drop_bit 16 v), ucast (drop_bit 24 v)]"

definition int32_of_bytes :: "byte list \<Rightarrow> 32 word" where
  "int32_of_bytes bs = le32 (char_at bs 0) (char_at bs 1) (char_at bs 2) (char_at bs 3)"

definition int_type :: "(32 word) value_type" where
  "int_type = \<lparr>
     write_value = bytes_of_int32,
     read_value = (\<lambda>t. case itail_read t 4 of
                          Inl e \<Rightarrow> Inl e
                        | Inr (None, t') \<Rightarrow> Inr (None, t')
                        | Inr (Some bs, t') \<Rightarrow> Inr (Some (int32_of_bytes bs), t')) \<rparr>"

text \<open>\<^verbatim>\<open>std::string\<close> and \<^verbatim>\<open>char*\<close>: \<^verbatim>\<open>write_string(str)\<close>, and the string at the read position
  followed by \<^verbatim>\<open>m_offset += strlen() + 1\<close>.\<close>

definition string_type :: "(byte list) value_type" where
  "string_type = \<lparr>
     write_value = (\<lambda>s. c_str s @ [0]),
     read_value = (\<lambda>t. case itail_strlen t of
                          Inl e \<Rightarrow> Inl e
                        | Inr n \<Rightarrow>
                            Inr (Some (take n (drop (t_offset t) (the (a_block (t_cont t))))),
                                 t\<lparr> t_offset := t_offset t + n + 1 \<rparr>)) \<rparr>"

subsection \<open>class trie: the read-only double-array trie\<close>

record 'e trie =
  m_block :: "byte list option"
  m_table :: "byte \<Rightarrow> byte"
  m_da :: "'e array"
  m_tail :: itail
  m_n :: nat

text \<open>The constructor; \<^verbatim>\<open>m_n\<close> is not initialised by it and is a parameter here.\<close>

definition trie_init :: "nat \<Rightarrow> 'e trie" where
  "trie_init n = \<lparr> m_block = None, m_table = (\<lambda>i. i), m_da = array_empty,
                   m_tail = itail_init, m_n = n \<rparr>"

definition trie_get_base :: "'e doublearray_traits \<Rightarrow> 'e trie \<Rightarrow> nat \<Rightarrow> error + 32 word" where
  "trie_get_base T tr i =
     (case array_at (m_da tr) i of Inl e \<Rightarrow> Inl e | Inr elem \<Rightarrow> Inr (get_base T elem))"

definition trie_get_check :: "'e doublearray_traits \<Rightarrow> 'e trie \<Rightarrow> nat \<Rightarrow> error + byte" where
  "trie_get_check T tr i =
     (case array_at (m_da tr) i of Inl e \<Rightarrow> Inl e | Inr elem \<Rightarrow> Inr (get_check T elem))"

definition descend :: "'e doublearray_traits \<Rightarrow> 'e trie \<Rightarrow> nat \<Rightarrow> byte \<Rightarrow> error + nat" where
  "descend T tr i c =
     (case trie_get_base T tr i of
        Inl e \<Rightarrow> Inl e
      | Inr base \<Rightarrow>
          if sint base \<le> 0 then Inr INVALID_INDEX
          else
            (let check = m_table tr c;
                 next = nat (sint base) + unat check + 1
             in if a_size (m_da tr) \<le> next then Inr INVALID_INDEX
                else
                  (case trie_get_check T tr next of
                     Inl e \<Rightarrow> Inl e
                   | Inr k \<Rightarrow> if k \<noteq> check then Inr INVALID_INDEX else Inr next)))"

text \<open>
  \<^verbatim>\<open>(size_type)-base\<close> for a negative base: the \<^verbatim>\<open>int\<close> value \<^verbatim>\<open>-base\<close> is converted to a
  \<^verbatim>\<open>size_t\<close> of 64 bits, with sign extension. For the least \<^verbatim>\<open>int\<close> the negation wraps around
  and stays negative, which gives \<open>0xFFFFFFFF80000000\<close>; the builder never writes that base.
\<close>

definition size_of_neg :: "32 word \<Rightarrow> nat" where
  "size_of_neg base = unat (scast (- base) :: 64 word)"

text \<open>
  The loop of \<^verbatim>\<open>locate\<close>. \<open>p\<close> is the rest of the key, \<^verbatim>\<open>*p\<close> its first byte (0 at the end).
  The result is \<open>None\<close> for \<^verbatim>\<open>return false\<close> and the offset and the rest of the key at \<^verbatim>\<open>break\<close>.
\<close>

function locate_loop ::
  "'e doublearray_traits \<Rightarrow> 'e trie \<Rightarrow> nat \<Rightarrow> byte list \<Rightarrow> error + (nat \<times> byte list) option" where
  "locate_loop T tr cur p =
     (case descend T tr cur (char_at p 0) of
        Inl e \<Rightarrow> Inl e
      | Inr cur' \<Rightarrow>
          if cur' = INVALID_INDEX then Inr None
          else
            (case trie_get_base T tr cur' of
               Inl e \<Rightarrow> Inl e
             | Inr base \<Rightarrow>
                 if sint base < 0 then
                   Inr (Some (size_of_neg base, if char_at p 0 \<noteq> 0 then tl p else p))
                 else if char_at p 0 = 0 then Inr None
                 else locate_loop T tr cur' (tl p)))"
  by pat_completeness auto
termination
  by (relation "measure (\<lambda>(T, tr, cur, p). length p)") (auto simp: char_at_def split: if_splits)

definition locate :: "'e doublearray_traits \<Rightarrow> 'e trie \<Rightarrow> byte list \<Rightarrow> error + (nat \<times> 'e trie)" where
  "locate T tr key =
     (case locate_loop T tr INITIAL_INDEX key of
        Inl e \<Rightarrow> Inl e
      | Inr None \<Rightarrow> Inr (0, tr)
      | Inr (Some (offset, p)) \<Rightarrow>
          (let tail = seekg (m_tail tr) offset;
               tr' = tr\<lparr> m_tail := tail \<rparr>
           in case match_string tail p of
                Inl e \<Rightarrow> Inl e
              | Inr True \<Rightarrow>
                  (case itail_strlen tail of
                     Inl e \<Rightarrow> Inl e
                   | Inr n \<Rightarrow> Inr (offset + n + 1, tr'))
              | Inr False \<Rightarrow> Inr (0, tr')))"

definition trie_in :: "'e doublearray_traits \<Rightarrow> 'e trie \<Rightarrow> byte list \<Rightarrow> error + (bool \<times> 'e trie)" where
  "trie_in T tr key =
     (case locate T tr key of
        Inl e \<Rightarrow> Inl e
      | Inr (offset, tr') \<Rightarrow> Inr (offset \<noteq> 0, tr'))"

text \<open>\<^verbatim>\<open>find(key, value)\<close>: the returned flag, what is stored into \<^verbatim>\<open>value\<close>, and the trie.\<close>

definition find ::
  "'e doublearray_traits \<Rightarrow> 'v value_type \<Rightarrow> 'e trie \<Rightarrow> byte list
     \<Rightarrow> error + (bool \<times> 'v option \<times> 'e trie)" where
  "find T V tr key =
     (case locate T tr key of
        Inl e \<Rightarrow> Inl e
      | Inr (offset, tr') \<Rightarrow>
          if offset \<noteq> 0 then
            (case read_value V (seekg (m_tail tr') offset) of
               Inl e \<Rightarrow> Inl e
             | Inr (v, tail) \<Rightarrow> Inr (True, v, tr'\<lparr> m_tail := tail \<rparr>))
          else Inr (False, None, tr'))"

subsubsection \<open>prefix_cursor and next_prefix\<close>

text \<open>
  \<open>pc_attached\<close> says that \<^verbatim>\<open>m_trie\<close> is not null; \<open>pc_value\<close> is \<open>None\<close> as long as nothing was
  stored into \<^verbatim>\<open>value\<close>. The query is a \<^verbatim>\<open>std::string\<close>, read through \<^verbatim>\<open>c_str()\<close>.
\<close>

record 'v prefix_cursor =
  pc_attached :: bool
  pc_query :: "byte list"
  pc_length :: nat
  pc_value :: "'v option"
  pc_cur :: nat

definition prefix :: "byte list \<Rightarrow> 'v prefix_cursor" where
  "prefix str = \<lparr> pc_attached = True, pc_query = c_str str, pc_length = 0,
                   pc_value = None, pc_cur = INITIAL_INDEX \<rparr>"

definition store_value :: "'v prefix_cursor \<Rightarrow> 'v option \<Rightarrow> 'v prefix_cursor" where
  "store_value pfx v = (case v of None \<Rightarrow> pfx | Some x \<Rightarrow> pfx\<lparr> pc_value := Some x \<rparr>)"

datatype loop_exit = Return bool | Break nat

text \<open>The loop of \<^verbatim>\<open>next_prefix\<close>: it ends with a \<^verbatim>\<open>return\<close> or with \<^verbatim>\<open>break\<close> at a leaf.\<close>

function next_prefix_loop ::
  "'e doublearray_traits \<Rightarrow> 'v value_type \<Rightarrow> 'e trie \<Rightarrow> 'v prefix_cursor
     \<Rightarrow> error + (loop_exit \<times> 'v prefix_cursor \<times> 'e trie)" where
  "next_prefix_loop T V tr pfx =
     (let c = char_at (pc_query pfx) (pc_length pfx) in
      case descend T tr (pc_cur pfx) c of
        Inl e \<Rightarrow> Inl e
      | Inr cur' \<Rightarrow>
          (let pfx1 = pfx\<lparr> pc_cur := cur' \<rparr> in
           if cur' = INVALID_INDEX then Inr (Return False, pfx1, tr)
           else
             (case trie_get_base T tr cur' of
                Inl e \<Rightarrow> Inl e
              | Inr base \<Rightarrow>
                  if sint base < 0 then
                    Inr (Break (size_of_neg base),
                         (if c \<noteq> 0 then pfx1\<lparr> pc_length := pc_length pfx1 + 1 \<rparr> else pfx1), tr)
                  else
                    (case descend T tr cur' 0 of
                       Inl e \<Rightarrow> Inl e
                     | Inr cur0 \<Rightarrow>
                         (case (if cur0 \<noteq> INVALID_INDEX then trie_get_base T tr cur0 else Inr 0) of
                            Inl e \<Rightarrow> Inl e
                          | Inr base0 \<Rightarrow>
                              if cur0 \<noteq> INVALID_INDEX \<and> base0 \<noteq> 0 then
                                (if 0 \<le> sint base0 then Inl TrieException
                                 else
                                   (let tail1 = seekg (m_tail tr) (size_of_neg base0) in
                                    case itail_strlen tail1 of
                                      Inl e \<Rightarrow> Inl e
                                    | Inr n \<Rightarrow>
                                        if n \<noteq> 0 then Inl TrieException
                                        else
                                          (case read_value V (seekg tail1 (size_of_neg base0 + 1)) of
                                             Inl e \<Rightarrow> Inl e
                                           | Inr (v, tail2) \<Rightarrow>
                                               Inr (Return True,
                                                    store_value (pfx1\<lparr> pc_length := pc_length pfx1 + 1 \<rparr>) v,
                                                    tr\<lparr> m_tail := tail2 \<rparr>))))
                              else if c = 0 then Inr (Return False, pfx1, tr)
                              else next_prefix_loop T V tr (pfx1\<lparr> pc_length := pc_length pfx1 + 1 \<rparr>))))))"
  by pat_completeness auto
termination
  by (relation "measure (\<lambda>(T, V, tr, pfx). length (pc_query pfx) - pc_length pfx)")
     (auto simp: char_at_def split: if_splits)

definition next_prefix ::
  "'e doublearray_traits \<Rightarrow> 'v value_type \<Rightarrow> 'e trie \<Rightarrow> 'v prefix_cursor
     \<Rightarrow> error + (bool \<times> 'v prefix_cursor \<times> 'e trie)" where
  "next_prefix T V tr pfx =
     (if c_strlen (pc_query pfx) \<le> pc_length pfx then Inr (False, pfx, tr)
      else
        (case next_prefix_loop T V tr pfx of
           Inl e \<Rightarrow> Inl e
         | Inr (Return r, pfx1, tr1) \<Rightarrow> Inr (r, pfx1, tr1)
         | Inr (Break offset, pfx1, tr1) \<Rightarrow>
             (let tail1 = seekg (m_tail tr1) offset in
              case match_string_partial tail1 (drop (pc_length pfx1) (pc_query pfx1)) of
                Inl e \<Rightarrow> Inl e
              | Inr False \<Rightarrow> Inr (False, pfx1, tr1\<lparr> m_tail := tail1 \<rparr>)
              | Inr True \<Rightarrow>
                  (case itail_strlen tail1 of
                     Inl e \<Rightarrow> Inl e
                   | Inr postfix_size \<Rightarrow>
                       (case read_value V (seekg tail1 (offset + postfix_size + 1)) of
                          Inl e \<Rightarrow> Inl e
                        | Inr (v, tail2) \<Rightarrow>
                            Inr (True,
                                 store_value (pfx1\<lparr> pc_length := pc_length pfx1 + postfix_size \<rparr>) v,
                                 tr1\<lparr> m_tail := tail2 \<rparr>))))))"

text \<open>\<^verbatim>\<open>prefix_cursor::next()\<close>.\<close>

definition cursor_next ::
  "'e doublearray_traits \<Rightarrow> 'v value_type \<Rightarrow> 'e trie \<Rightarrow> 'v prefix_cursor
     \<Rightarrow> error + (bool \<times> 'v prefix_cursor \<times> 'e trie)" where
  "cursor_next T V tr pfx =
     (if pc_attached pfx then next_prefix T V tr pfx else Inr (False, pfx, tr))"

text \<open>The results of the first \<open>n\<close> calls of \<^verbatim>\<open>next()\<close>: the flag returned, and the length and
  the value the cursor shows after the call.\<close>

fun cursor_run ::
  "'e doublearray_traits \<Rightarrow> 'v value_type \<Rightarrow> nat \<Rightarrow> 'e trie \<Rightarrow> 'v prefix_cursor
     \<Rightarrow> error + (bool \<times> nat \<times> 'v option) list" where
  "cursor_run T V 0 tr pfx = Inr []"
| "cursor_run T V (Suc n) tr pfx =
     (case cursor_next T V tr pfx of
        Inl e \<Rightarrow> Inl e
      | Inr (r, pfx1, tr1) \<Rightarrow>
          (case cursor_run T V n tr1 pfx1 of
             Inl e \<Rightarrow> Inl e
           | Inr rs \<Rightarrow> Inr ((r, pc_length pfx1, pc_value pfx1) # rs)))"

subsubsection \<open>assign from a memory image, read from a stream\<close>

text \<open>A read of the memory block at \<open>p\<close> is undefined when it leaves the block.\<close>

definition read_data :: "byte list \<Rightarrow> nat \<Rightarrow> nat \<Rightarrow> error + byte list" where
  "read_data block p n =
     (if p + n \<le> length block then Inr (take n (drop p block)) else Inl UndefinedBehaviour)"

definition read_uint32 :: "byte list \<Rightarrow> nat \<Rightarrow> error + 32 word" where
  "read_uint32 block p =
     (case read_data block p 4 of Inl e \<Rightarrow> Inl e | Inr bs \<Rightarrow> Inr (int32_of_bytes bs))"

definition read_chunk :: "byte list \<Rightarrow> nat \<Rightarrow> error + (byte list \<times> 32 word)" where
  "read_chunk block p =
     (case read_data block p 4 of
        Inl e \<Rightarrow> Inl e
      | Inr chunk \<Rightarrow>
          (case read_uint32 block (p + 4) of
             Inl e \<Rightarrow> Inl e
           | Inr n \<Rightarrow> Inr (chunk, n)))"

definition chunk_name :: "string \<Rightarrow> byte list" where
  "chunk_name s = map (of_nat \<circ> of_char) s"

text \<open>The elements a pointer \<^verbatim>\<open>(element_type*)q\<close> into the block addresses.\<close>

definition elements_at :: "'e doublearray_traits \<Rightarrow> byte list \<Rightarrow> nat \<Rightarrow> 'e list" where
  "elements_at T block q =
     map (\<lambda>i. element_of_bytes T (take (sizeof_element T) (drop (q + i * sizeof_element T) block)))
       [0..<(length block - q) div sizeof_element T]"

text \<open>
  The loop over the child chunks of \<^verbatim>\<open>assign(block, size)\<close>. A chunk whose size field is 0
  is read again and again by the source; \<open>fuel\<close> bounds the number of rounds.
\<close>

fun assign_chunks ::
  "'e doublearray_traits \<Rightarrow> nat \<Rightarrow> byte list \<Rightarrow> nat \<Rightarrow> nat \<Rightarrow> 'e trie \<Rightarrow> error + 'e trie" where
  "assign_chunks T 0 block last_p p tr = (if p < last_p then Inl OutOfFuel else Inr tr)"
| "assign_chunks T (Suc fuel) block last_p p tr =
     (if p < last_p then
        (case read_chunk block p of
           Inl e \<Rightarrow> Inl e
         | Inr (chunk, sz) \<Rightarrow>
             (let q = p + 8;
                  datasize = unat (sz - of_nat CHUNKSIZE)
              in if chunk = chunk_name ''TBLU'' then
                   (if datasize = NUMCHARS then
                      (case read_data block q NUMCHARS of
                         Inl e \<Rightarrow> Inl e
                       | Inr bs \<Rightarrow>
                           assign_chunks T fuel block last_p (p + unat sz)
                             (tr\<lparr> m_table := (\<lambda>i. bs ! unat i) \<rparr>))
                    else assign_chunks T fuel block last_p (p + unat sz) tr)
                 else if chunk = chunk_id T then
                   assign_chunks T fuel block last_p (p + unat sz)
                     (tr\<lparr> m_da := array_assign (elements_at T block q)
                                    (datasize div sizeof_element T) False \<rparr>)
                 else if chunk = chunk_name ''TAIL'' then
                   assign_chunks T fuel block last_p (p + unat sz)
                     (tr\<lparr> m_tail := itail_assign (m_tail tr) (drop q block) datasize False \<rparr>)
                 else assign_chunks T fuel block last_p (p + unat sz) tr))
      else Inr tr)"

text \<open>\<^verbatim>\<open>assign(block, size)\<close>: the value returned and the trie.\<close>

definition assign_block ::
  "'e doublearray_traits \<Rightarrow> nat \<Rightarrow> 'e trie \<Rightarrow> byte list \<Rightarrow> nat \<Rightarrow> error + (nat \<times> 'e trie)" where
  "assign_block T fuel tr block block_size =
     (if block_size < SDAT_CHUNKSIZE then Inr (0, tr)
      else
        (case read_chunk block 0 of
           Inl e \<Rightarrow> Inl e
         | Inr (chunk, total_size) \<Rightarrow>
             if chunk \<noteq> chunk_name ''SDAT'' then Inr (0, tr)
             else
               (case read_uint32 block 8 of
                  Inl e \<Rightarrow> Inl e
                | Inr sdat_size \<Rightarrow>
                    if unat sdat_size \<noteq> SDAT_CHUNKSIZE then Inr (0, tr)
                    else
                      (case read_uint32 block 12 of
                         Inl e \<Rightarrow> Inl e
                       | Inr v \<Rightarrow>
                           (case assign_chunks T fuel block (unat total_size) 16
                                   (tr\<lparr> m_n := unat v \<rparr>) of
                              Inl e \<Rightarrow> Inl e
                            | Inr tr1 \<Rightarrow>
                                if \<not> array_allocated (m_da tr1)
                                   \<or> \<not> array_allocated (t_cont (m_tail tr1))
                                then Inr (0, tr1)
                                else Inr (unat total_size, tr1))))))"

text \<open>
  \<^verbatim>\<open>std::istream\<close> is not part of the library. The stream is its bytes, its position and its
  \<^verbatim>\<open>failbit\<close> and \<^verbatim>\<open>eofbit\<close>, with the three members \<^verbatim>\<open>read\<close> uses as the C++ standard
  defines them: \<^verbatim>\<open>tellg\<close> is -1 on a failed stream; \<^verbatim>\<open>read\<close> extracts nothing from a stream
  that is not good, and sets both bits when the bytes run out; \<^verbatim>\<open>seekg\<close> clears \<^verbatim>\<open>eofbit\<close> and
  moves the position unless the stream has failed.
\<close>

record istream =
  is_data :: "byte list"
  is_pos :: nat
  is_failbit :: bool
  is_eofbit :: bool

definition is_tellg :: "istream \<Rightarrow> int" where
  "is_tellg s = (if is_failbit s then - 1 else int (is_pos s))"

definition is_read :: "istream \<Rightarrow> nat \<Rightarrow> byte list \<times> istream" where
  "is_read s n =
     (if is_failbit s \<or> is_eofbit s then ([], s\<lparr> is_failbit := True \<rparr>)
      else if is_pos s + n \<le> length (is_data s)
      then (take n (drop (is_pos s) (is_data s)), s\<lparr> is_pos := is_pos s + n \<rparr>)
      else (drop (is_pos s) (is_data s),
            s\<lparr> is_pos := length (is_data s), is_failbit := True, is_eofbit := True \<rparr>))"

definition is_seekg :: "istream \<Rightarrow> int \<Rightarrow> istream" where
  "is_seekg s offset =
     (let s1 = s\<lparr> is_eofbit := False \<rparr>
      in if is_failbit s1 then s1
         else if 0 \<le> offset \<and> nat offset \<le> length (is_data s1)
         then s1\<lparr> is_pos := nat offset \<rparr>
         else s1\<lparr> is_failbit := True \<rparr>)"

text \<open>
  \<^verbatim>\<open>read(is)\<close>: the value returned, the trie and the stream. A declared total size below
  \<^verbatim>\<open>CHUNKSIZE\<close> makes the source copy eight bytes into a shorter block. The part of the new
  block that no byte was read into is shown as zero bytes.
\<close>

definition trie_read ::
  "'e doublearray_traits \<Rightarrow> nat \<Rightarrow> 'e trie \<Rightarrow> istream \<Rightarrow> error + (nat \<times> 'e trie \<times> istream)" where
  "trie_read T fuel tr s =
     (let offset = is_tellg s;
          (data, s1) = is_read s CHUNKSIZE
      in if is_failbit s1 then Inr (0, tr, is_seekg s1 offset)
         else
           (case read_chunk data 0 of
              Inl e \<Rightarrow> Inl e
            | Inr (chunk, total_size) \<Rightarrow>
                if chunk \<noteq> chunk_name ''SDAT'' then Inr (0, tr, is_seekg s1 offset)
                else if unat total_size < CHUNKSIZE then Inl UndefinedBehaviour
                else
                  (let (body, s2) = is_read s1 (unat total_size - CHUNKSIZE);
                       block = data @ body @ replicate (unat total_size - CHUNKSIZE - length body) 0;
                       tr1 = tr\<lparr> m_block := Some block \<rparr>
                   in if is_failbit s2 then Inr (0, tr1, is_seekg s2 offset)
                      else
                        (case assign_block T fuel tr1 block (unat total_size) of
                           Inl e \<Rightarrow> Inl e
                         | Inr (used_size, tr2) \<Rightarrow>
                             if used_size \<noteq> unat total_size then Inr (0, tr2, is_seekg s2 offset)
                             else Inr (used_size, tr2, s2)))))"

subsection \<open>class builder\<close>

text \<open>
  A record of the input is \<^verbatim>\<open>record_type\<close>, with a \<^verbatim>\<open>char*\<close> key (the key type of the build
  tool). A range \<^verbatim>\<open>[first, last)\<close> of records is the list of the records it addresses.
  The writer \<^verbatim>\<open>otail\<close> is the byte vector it holds.
\<close>

record 'v record_type =
  rec_key :: "byte list"
  rec_value :: 'v

record dlink_element_type =
  dl_prev :: nat
  dl_next :: nat

text \<open>\<^verbatim>\<open>stat_type\<close> without its two floating-point ratios.\<close>

record stat_type =
  da_size :: nat
  da_num_total :: nat
  da_num_used :: nat
  da_num_nodes :: nat
  da_num_leaves :: nat
  tail_size :: nat
  bt_sum_base_trials :: nat

text \<open>The builder without a progress callback (\<^verbatim>\<open>m_callback == NULL\<close>, as constructed).\<close>

record 'e builder =
  b_i :: nat
  b_n :: nat
  b_da :: "'e list"
  b_tail :: "byte list"
  b_table :: "byte \<Rightarrow> byte"
  b_used_bases :: "bool list"
  b_elink :: "dlink_element_type list"
  b_stat :: stat_type

definition stat_zero :: stat_type where
  "stat_zero = \<lparr> da_size = 0, da_num_total = 0, da_num_used = 0, da_num_nodes = 0,
                  da_num_leaves = 0, tail_size = 0, bt_sum_base_trials = 0 \<rparr>"

definition builder_init :: "'e builder" where
  "builder_init = \<lparr> b_i = 0, b_n = 0, b_da = [], b_tail = [], b_table = (\<lambda>i. i),
                     b_used_bases = [], b_elink = [], b_stat = stat_zero \<rparr>"

definition builder_get_base :: "'e doublearray_traits \<Rightarrow> 'e builder \<Rightarrow> nat \<Rightarrow> 32 word" where
  "builder_get_base T b i = get_base T (b_da b ! i)"

text \<open>\<^verbatim>\<open>set_base(i, v)\<close> and \<^verbatim>\<open>set_check(i, v)\<close> write \<^verbatim>\<open>m_da[i]\<close>: undefined outside the vector.\<close>

definition builder_set_base ::
  "'e doublearray_traits \<Rightarrow> 'e builder \<Rightarrow> nat \<Rightarrow> 32 word \<Rightarrow> error + 'e builder" where
  "builder_set_base T b i v =
     (if i < length (b_da b) then Inr (b\<lparr> b_da := (b_da b)[i := set_base T (b_da b ! i) v] \<rparr>)
      else Inl UndefinedBehaviour)"

definition builder_set_check ::
  "'e doublearray_traits \<Rightarrow> 'e builder \<Rightarrow> nat \<Rightarrow> byte \<Rightarrow> error + 'e builder" where
  "builder_set_check T b i v =
     (if i < length (b_da b) then Inr (b\<lparr> b_da := (b_da b)[i := set_check T (b_da b ! i) v] \<rparr>)
      else Inl UndefinedBehaviour)"

definition da_in_use :: "'e doublearray_traits \<Rightarrow> 'e builder \<Rightarrow> nat \<Rightarrow> bool" where
  "da_in_use T b i = (i < length (b_da b) \<and> builder_get_base T b i \<noteq> 0)"

definition da_expand :: "'e doublearray_traits \<Rightarrow> 'e builder \<Rightarrow> nat \<Rightarrow> 'e builder" where
  "da_expand T b n =
     (if length (b_da b) < n
      then b\<lparr> b_da := b_da b @ replicate (n - length (b_da b)) (default_value T) \<rparr>
      else b)"

text \<open>\<^verbatim>\<open>std::vector::resize(n)\<close> of the list of links, new elements being \<open>(0, 0)\<close>.\<close>

definition elink_resize :: "dlink_element_type list \<Rightarrow> nat \<Rightarrow> dlink_element_type list" where
  "elink_resize el n =
     (if n \<le> length el then take n el
      else el @ replicate (n - length el) \<lparr> dl_prev = 0, dl_next = 0 \<rparr>)"

definition vlist_init :: "'e builder \<Rightarrow> 'e builder" where
  "vlist_init b =
     b\<lparr> b_elink := (elink_resize (b_elink b) 1)[0 := \<lparr> dl_prev = 0, dl_next = 1 \<rparr>] \<rparr>"

definition vlist_next :: "'e builder \<Rightarrow> nat \<Rightarrow> nat" where
  "vlist_next b i = (if i < length (b_elink b) then dl_next (b_elink b ! i) else i + 1)"

text \<open>The loop of \<^verbatim>\<open>vlist_expand\<close>: \<open>k\<close> elements from index \<open>i\<close> on are linked.\<close>

fun vlist_expand_loop ::
  "dlink_element_type list \<Rightarrow> nat \<Rightarrow> nat \<Rightarrow> nat \<Rightarrow> dlink_element_type list" where
  "vlist_expand_loop el back i 0 = el"
| "vlist_expand_loop el back i (Suc k) =
     vlist_expand_loop (el[i := \<lparr> dl_prev = back, dl_next = i + 1 \<rparr>]) i (i + 1) k"

definition vlist_expand :: "'e builder \<Rightarrow> nat \<Rightarrow> 'e builder" where
  "vlist_expand b n =
     (if length (b_elink b) < n then
        (let first = length (b_elink b);
             el = elink_resize (b_elink b) n;
             back = dl_prev (el ! 0);
             el = vlist_expand_loop el back first (n - first)
         in b\<lparr> b_elink := el[0 := (el ! 0)\<lparr> dl_prev := n - 1 \<rparr>] \<rparr>)
      else b)"

definition vlist_use :: "'e builder \<Rightarrow> nat \<Rightarrow> error + 'e builder" where
  "vlist_use b i =
     (if i < length (b_elink b) then
        (let prev = dl_prev (b_elink b ! i);
             next = dl_next (b_elink b ! i);
             el = (if length (b_elink b) \<le> next
                   then (let el1 = elink_resize (b_elink b) (next + 1);
                             el2 = el1[next := (el1 ! next)\<lparr> dl_next := next + 1 \<rparr>]
                         in el2[0 := (el2 ! 0)\<lparr> dl_prev := next \<rparr>])
                   else b_elink b)
         in if prev < length el then
              (let el3 = el[prev := (el ! prev)\<lparr> dl_next := next \<rparr>]
               in Inr (b\<lparr> b_elink := el3[next := (el3 ! next)\<lparr> dl_prev := prev \<rparr>] \<rparr>))
            else Inl UndefinedBehaviour)
      else Inl UndefinedBehaviour)"

text \<open>
  \<^verbatim>\<open>clear()\<close>. The byte written to the tail is \<^verbatim>\<open>m_tail << (uint8_t)0\<close>: the argument is
  promoted to \<^verbatim>\<open>int\<close>, \<^verbatim>\<open>operator<<(int)\<close> is the overload taken, and \<^verbatim>\<open>sizeof(int)\<close> zero bytes
  are written. \<^verbatim>\<open>m_used_bases\<close> is not touched.
\<close>

definition SIZEOF_INT :: nat where "SIZEOF_INT = 4"

definition clear :: "'e doublearray_traits \<Rightarrow> 'e builder \<Rightarrow> 'e builder" where
  "clear T b =
     (let b1 = b\<lparr> b_table := (\<lambda>i. i) \<rparr>;
          b2 = da_expand T (b1\<lparr> b_da := [] \<rparr>) 1;
          b3 = b2\<lparr> b_tail := replicate SIZEOF_INT 0 \<rparr>;
          b4 = vlist_init b3
      in b4\<lparr> b_stat := stat_zero \<rparr>)"

subsubsection \<open>build_table\<close>

text \<open>
  \<^verbatim>\<open>unigram_freq\<close>; the frequency, a \<^verbatim>\<open>double\<close> that only ever counts, is a natural number.
  \<^verbatim>\<open>std::sort\<close> is not part of the library: it is a parameter \<open>std_sort\<close> of the build, of
  which the C++ standard promises what \<open>std_sort_spec\<close> says, a permutation of its input
  in which no element is followed by one that must come before it. The order of equivalent
  elements is not promised.
\<close>

record unigram_freq =
  uf_c :: nat
  uf_freq :: nat

definition comp_freq :: "unigram_freq \<Rightarrow> unigram_freq \<Rightarrow> bool" where
  "comp_freq x y = (uf_freq x > uf_freq y)"

type_synonym sort_type =
  "(unigram_freq \<Rightarrow> unigram_freq \<Rightarrow> bool) \<Rightarrow> unigram_freq list \<Rightarrow> unigram_freq list"

definition std_sort_spec :: "sort_type \<Rightarrow> bool" where
  "std_sort_spec std_sort =
     (\<forall>xs. mset (std_sort comp_freq xs) = mset xs
         \<and> sorted_wrt (\<lambda>x y. \<not> comp_freq y x) (std_sort comp_freq xs))"

text \<open>One sort that meets the promise: insertion from the right, which keeps equivalent
  elements in their order (a stable sort).\<close>

fun insert_by :: "('a \<Rightarrow> 'a \<Rightarrow> bool) \<Rightarrow> 'a \<Rightarrow> 'a list \<Rightarrow> 'a list" where
  "insert_by cmp x [] = [x]"
| "insert_by cmp x (y # ys) = (if cmp y x then y # insert_by cmp x ys else x # y # ys)"

definition stable_sort :: "('a \<Rightarrow> 'a \<Rightarrow> bool) \<Rightarrow> 'a list \<Rightarrow> 'a list" where
  "stable_sort cmp xs = foldr (insert_by cmp) xs []"

text \<open>And one that reverses the order of equivalent elements. For the single key of the
  byte 0xFF it leaves the bytes 0xFF and 0, the two of frequency 1, in the order in which the
  introsort of the GNU C++ library leaves them.\<close>

definition reversing_sort :: "('a \<Rightarrow> 'a \<Rightarrow> bool) \<Rightarrow> 'a list \<Rightarrow> 'a list" where
  "reversing_sort cmp xs = stable_sort cmp (rev xs)"

definition increment_freq :: "unigram_freq list \<Rightarrow> nat \<Rightarrow> unigram_freq list" where
  "increment_freq st c = st[c := (st ! c)\<lparr> uf_freq := uf_freq (st ! c) + 1 \<rparr>]"

definition count_key :: "unigram_freq list \<Rightarrow> byte list \<Rightarrow> unigram_freq list" where
  "count_key st k = increment_freq (fold (\<lambda>ch st. increment_freq st (unat ch)) (c_str k) st) 0"

definition count_records :: "'v record_type list \<Rightarrow> unigram_freq list" where
  "count_records recs =
     fold (\<lambda>it st. count_key st (rec_key it)) recs
       (map (\<lambda>i. \<lparr> uf_c = i, uf_freq = 0 \<rparr>) [0..<NUMCHARS])"

definition build_table ::
  "sort_type \<Rightarrow> (byte \<Rightarrow> byte) \<Rightarrow> 'v record_type list \<Rightarrow> (byte \<Rightarrow> byte)" where
  "build_table std_sort table recs =
     (let st = std_sort comp_freq (count_records recs)
      in fold (\<lambda>i table. table(of_nat (uf_c (st ! i)) := of_nat i)) [0..<NUMCHARS] table)"

subsubsection \<open>arrange\<close>

record 'v child_t =
  c_c :: byte
  c_offset :: nat
  c_records :: "'v record_type list"

text \<open>
  The first loop of \<^verbatim>\<open>arrange\<close>, over the records of the range: a record whose character at
  \<open>p\<close> is greater than the one before opens a child, an equal one stays with the last child
  (whose \<^verbatim>\<open>last\<close> is set when the next child opens, or after the loop), a smaller one
  raises the exception.
\<close>

fun scan_children ::
  "(byte \<Rightarrow> byte) \<Rightarrow> nat \<Rightarrow> int \<Rightarrow> 'v child_t list \<Rightarrow> nat \<Rightarrow> 'v record_type list
     \<Rightarrow> error + ('v child_t list \<times> nat)" where
  "scan_children table p pc children max_offset [] = Inr (children, max_offset)"
| "scan_children table p pc children max_offset (it # rest) =
     (let c = uint (char_at (rec_key it) p) in
      if pc < c then
        (let offset = unat (table (word_of_int c)) + 1
         in scan_children table p c
              (children @ [\<lparr> c_c = word_of_int c, c_offset = offset, c_records = [it] \<rparr>])
              (if max_offset < offset then offset else max_offset) rest)
      else if c < pc then Inl RecordsNotSorted
      else scan_children table p c
             (butlast children @
                [(last children)\<lparr> c_records := c_records (last children) @ [it] \<rparr>])
             max_offset rest)"

definition add_base_trial :: "'e builder \<Rightarrow> 'e builder" where
  "add_base_trial b =
     b\<lparr> b_stat := (b_stat b)\<lparr> bt_sum_base_trials := bt_sum_base_trials (b_stat b) + 1 \<rparr> \<rparr>"

text \<open>
  The loop that finds a base, \<^verbatim>\<open>for (;;)\<close> in the source, with a bound \<open>fuel\<close> on the number
  of its rounds: the result is \<open>OutOfFuel\<close> when the bound is reached.
\<close>

fun find_base ::
  "'e doublearray_traits \<Rightarrow> nat \<Rightarrow> 'v child_t list \<Rightarrow> nat \<Rightarrow> nat \<Rightarrow> 'e builder
     \<Rightarrow> error + (nat \<times> 'e builder)" where
  "find_base T 0 children max_offset index b = Inl OutOfFuel"
| "find_base T (Suc fuel) children max_offset index b =
     (let b1 = add_base_trial b;
          index1 = vlist_next b1 index
      in if index1 < INITIAL_INDEX + c_offset (hd children)
         then find_base T fuel children max_offset index1 b1
         else
           (let base = index1 - c_offset (hd children)
            in if base < length (b_used_bases b1) \<and> b_used_bases b1 ! base
               then find_base T fuel children max_offset index1 b1
               else
                 (let b2 = vlist_expand (da_expand T b1 (base + max_offset + 1))
                             (base + max_offset + 1)
                  in if list_ex (\<lambda>ch. da_in_use T b2 (base + c_offset ch)) (tl children)
                     then find_base T fuel children max_offset index1 b2
                     else Inr (base, b2))))"

definition register_base :: "'e builder \<Rightarrow> nat \<Rightarrow> 'e builder" where
  "register_base b base =
     (let used = (if length (b_used_bases b) \<le> base
                  then b_used_bases b @ replicate (base + 1 - length (b_used_bases b)) False
                  else b_used_bases b)
      in b\<lparr> b_used_bases := used[base := True] \<rparr>)"

fun reserve_children ::
  "'e doublearray_traits \<Rightarrow> nat \<Rightarrow> 'v child_t list \<Rightarrow> 'e builder \<Rightarrow> error + 'e builder" where
  "reserve_children T base [] b = Inr b"
| "reserve_children T base (child # rest) b =
     (case builder_set_base T b (base + c_offset child) 1 of
        Inl e \<Rightarrow> Inl e
      | Inr b1 \<Rightarrow>
          (case vlist_use b1 (base + c_offset child) of
             Inl e \<Rightarrow> Inl e
           | Inr b2 \<Rightarrow> reserve_children T base rest b2))"

text \<open>The last loop of \<^verbatim>\<open>arrange\<close>; \<open>arr\<close> is the recursive call made for a child.\<close>

fun set_children ::
  "('v child_t \<Rightarrow> 'e builder \<Rightarrow> error + (32 word \<times> 'e builder)) \<Rightarrow> 'e doublearray_traits
     \<Rightarrow> nat \<Rightarrow> 'v child_t list \<Rightarrow> 'e builder \<Rightarrow> error + 'e builder" where
  "set_children arr T base [] b = Inr b"
| "set_children arr T base (child # rest) b =
     (case arr child b of
        Inl e \<Rightarrow> Inl e
      | Inr (v, b1) \<Rightarrow>
          (case builder_set_base T b1 (base + c_offset child) v of
             Inl e \<Rightarrow> Inl e
           | Inr b2 \<Rightarrow>
               (case builder_set_check T b2 (base + c_offset child)
                       (of_nat (c_offset child - 1)) of
                  Inl e \<Rightarrow> Inl e
                | Inr b3 \<Rightarrow> set_children arr T base rest b3)))"

definition write_leaf :: "'v value_type \<Rightarrow> nat \<Rightarrow> 'v record_type \<Rightarrow> 'e builder \<Rightarrow> 'e builder" where
  "write_leaf V p rec b =
     b\<lparr> b_tail := b_tail b @ (c_str (drop p (rec_key rec)) @ [0]) @ write_value V (rec_value rec),
        b_stat := (b_stat b)\<lparr> da_num_leaves := da_num_leaves (b_stat b) + 1 \<rparr> \<rparr>"

definition add_node :: "'e builder \<Rightarrow> 'e builder" where
  "add_node b = b\<lparr> b_stat := (b_stat b)\<lparr> da_num_nodes := da_num_nodes (b_stat b) + 1 \<rparr> \<rparr>"

text \<open>
  \<^verbatim>\<open>arrange(p, first, last)\<close>. \<open>fuel\<close> bounds the depth of the recursion and the rounds of
  each search for a base. A range of no record at all makes the source write
  \<^verbatim>\<open>children[num_children-1]\<close> with \<^verbatim>\<open>num_children == 0\<close>.
\<close>

fun arrange ::
  "'e doublearray_traits \<Rightarrow> 'v value_type \<Rightarrow> nat \<Rightarrow> nat \<Rightarrow> 'v record_type list \<Rightarrow> 'e builder
     \<Rightarrow> error + (32 word \<times> 'e builder)" where
  "arrange T V 0 p recs b = Inl OutOfFuel"
| "arrange T V (Suc fuel) p recs b =
     (if length recs = 1 then
        (let rec = hd recs;
             offset = length (b_tail b)
         in if unat (max_base T) < offset then Inl NoSpaceForLeaves
            else Inr (- of_nat offset, write_leaf V p rec b))
      else
        (case scan_children (b_table b) p (- 1) [] 0 recs of
           Inl e \<Rightarrow> Inl e
         | Inr (children, max_offset) \<Rightarrow>
             if children = [] then Inl UndefinedBehaviour
             else
               (case find_base T fuel children max_offset 0 b of
                  Inl e \<Rightarrow> Inl e
                | Inr (base, b1) \<Rightarrow>
                    if unat (max_base T) \<le> base + max_offset then Inl NoSpaceForChildren
                    else
                      (case reserve_children T base children (register_base b1 base) of
                         Inl e \<Rightarrow> Inl e
                       | Inr b2 \<Rightarrow>
                           (case set_children
                                   (\<lambda>child b.
                                      if c_c child \<noteq> 0
                                      then arrange T V fuel (p + 1) (c_records child) b
                                      else if length (c_records child) \<noteq> 1
                                      then Inl DuplicatedKeys
                                      else arrange T V fuel p (c_records child) b)
                                   T base children b2 of
                              Inl e \<Rightarrow> Inl e
                            | Inr b3 \<Rightarrow> Inr (of_nat base, add_node b3))))))"

definition compute_stat :: "'e doublearray_traits \<Rightarrow> 'e builder \<Rightarrow> 'e builder" where
  "compute_stat T b =
     b\<lparr> b_stat := (b_stat b)\<lparr>
          da_size := sizeof_element T * length (b_da b),
          da_num_total := length (b_da b),
          da_num_used := da_num_used (b_stat b)
                           + length (filter (da_in_use T b) [0..<length (b_da b)]),
          tail_size := length (b_tail b) \<rparr> \<rparr>"

text \<open>\<^verbatim>\<open>build(first, last)\<close> on a builder \<open>b\<close>.\<close>

definition build ::
  "'e doublearray_traits \<Rightarrow> 'v value_type \<Rightarrow> sort_type \<Rightarrow> nat \<Rightarrow> 'e builder
     \<Rightarrow> 'v record_type list \<Rightarrow> error + 'e builder" where
  "build T V std_sort fuel b recs =
     (let b1 = (clear T b)\<lparr> b_i := 0, b_n := length recs \<rparr>;
          b2 = b1\<lparr> b_table := build_table std_sort (b_table b1) recs \<rparr>;
          b3 = vlist_expand (da_expand T b2 (INITIAL_INDEX + 1)) (INITIAL_INDEX + 1)
      in case builder_set_base T b3 INITIAL_INDEX 1 of
           Inl e \<Rightarrow> Inl e
         | Inr b4 \<Rightarrow>
             (case vlist_use b4 INITIAL_INDEX of
                Inl e \<Rightarrow> Inl e
              | Inr b5 \<Rightarrow>
                  (case arrange T V fuel 0 recs b5 of
                     Inl e \<Rightarrow> Inl e
                   | Inr (v, b6) \<Rightarrow>
                       (case builder_set_base T b6 INITIAL_INDEX v of
                          Inl e \<Rightarrow> Inl e
                        | Inr b7 \<Rightarrow> Inr (compute_stat T b7)))))"

text \<open>\<^verbatim>\<open>trie::assign(da, tail, table)\<close>: the trie takes copies of the arrays of a builder.\<close>

definition assign_builder :: "'e trie \<Rightarrow> 'e list \<Rightarrow> byte list \<Rightarrow> (byte \<Rightarrow> byte) \<Rightarrow> 'e trie" where
  "assign_builder tr da tail table =
     tr\<lparr> m_da := array_assign da (length da) True,
         m_tail := itail_assign (m_tail tr) tail (length tail) True,
         m_table := table \<rparr>"

definition trie_of_builder :: "'e builder \<Rightarrow> 'e trie" where
  "trie_of_builder b = assign_builder (trie_init 0) (b_da b) (b_tail b) (b_table b)"

subsection \<open>Notions of the specification\<close>

text \<open>
  The frequency the specification counts for a byte: its occurrences in the keys, and one
  occurrence of the byte 0 for each record.
\<close>

definition key_freq :: "'v record_type list \<Rightarrow> byte \<Rightarrow> nat" where
  "key_freq recs c =
     (\<Sum>r\<leftarrow>recs. count_list (c_str (rec_key r)) c) + (if c = 0 then length recs else 0)"

text \<open>The frequency table with the counts \<open>g\<close>.\<close>

definition freq_table :: "(nat \<Rightarrow> nat) \<Rightarrow> unigram_freq list" where
  "freq_table g = map (\<lambda>i. \<lparr> uf_c = i, uf_freq = g i \<rparr>) [0..<NUMCHARS]"

text \<open>A value type whose \<^verbatim>\<open>operator>>\<close> only reads the tail and moves its read position.\<close>

definition keeps_tail_content :: "'v value_type \<Rightarrow> bool" where
  "keeps_tail_content V = (\<forall>t v t'. read_value V t = Inr (v, t') \<longrightarrow> t_cont t' = t_cont t)"

text \<open>
  A stream on which nothing has failed; the eight bytes at its position, the total size
  they declare, and the bytes of that size from its position on.
\<close>

definition stream_good :: "istream \<Rightarrow> bool" where
  "stream_good s = (\<not> is_failbit s \<and> \<not> is_eofbit s \<and> is_pos s \<le> length (is_data s))"

definition stream_header :: "istream \<Rightarrow> byte list" where
  "stream_header s = take CHUNKSIZE (drop (is_pos s) (is_data s))"

definition declared_size :: "istream \<Rightarrow> nat" where
  "declared_size s = unat (int32_of_bytes (take 4 (drop 4 (stream_header s))))"

definition stream_block :: "istream \<Rightarrow> byte list" where
  "stream_block s = take (declared_size s) (drop (is_pos s) (is_data s))"

subsection \<open>The order of the keys\<close>







subsection \<open>Invariants of the builder\<close>






subsection \<open>The two element widths side by side\<close>

text \<open>The 5-byte element with the BASE and the CHECK of a 4-byte element, and the builder and
  the trie of 5-byte elements that hold the elements of a builder and a trie of 4-byte
  elements, everything else being equal.\<close>

definition widen :: "32 word \<Rightarrow> element5" where
  "widen e = set_check5 (set_base5 (default_value doublearray5_traits) (get_base4 e)) (get_check4 e)"

definition widen_builder :: "(32 word) builder \<Rightarrow> element5 builder" where
  "widen_builder b = \<lparr> b_i = b_i b, b_n = b_n b, b_da = map widen (b_da b), b_tail = b_tail b,
      b_table = b_table b, b_used_bases = b_used_bases b, b_elink = b_elink b, b_stat = b_stat b \<rparr>"

definition widen_trie :: "(32 word) trie \<Rightarrow> element5 trie" where
  "widen_trie tr = \<lparr> m_block = m_block tr, m_table = m_table tr,
      m_da = \<lparr> a_block = map_option (map widen) (a_block (m_da tr)), a_size = a_size (m_da tr),
               a_own = a_own (m_da tr) \<rparr>,
      m_tail = m_tail tr, m_n = m_n tr \<rparr>"

text \<open>The bases that a 4-byte element holds.\<close>

definition base4_range :: "32 word \<Rightarrow> bool" where
  "base4_range v = (- 0x7FFFFF \<le> sint v \<and> sint v \<le> 0x7FFFFF)"

text \<open>What the caller of \<^verbatim>\<open>in\<close> and of \<^verbatim>\<open>find\<close> sees of a result: the flag, and the value.\<close>

definition in_result :: "error + (bool \<times> 'e trie) \<Rightarrow> error + bool" where
  "in_result r = map_sum id fst r"

definition find_result :: "error + (bool \<times> 'v option \<times> 'e trie) \<Rightarrow> error + (bool \<times> 'v option)" where
  "find_result r = map_sum id (\<lambda>(f, v, tr). (f, v)) r"

subsection \<open>Concrete inputs\<close>

definition d5 :: element5 where
  "d5 = default_value doublearray5_traits"

text \<open>A trie with the key \<open>a\<close> (0x61) and the \<^verbatim>\<open>int\<close> value 7, the character \<open>a\<close> mapped to 0.\<close>

definition trie_a7 :: "element5 trie" where
  "trie_a7 = assign_builder (trie_init 0)
           [d5, set_base5 d5 1, set_check5 (set_base5 d5 (- 4)) 0]
           [0, 0, 0, 0, 0, 7, 0, 0, 0]
           (\<lambda>c. if c = 0x61 then 0 else c)"

text \<open>The tail \<open>0 a 0\<close> with the read position at the string \<open>a\<close>, whose terminator is the
  last byte of the tail.\<close>

definition tail_a :: itail where
  "tail_a = \<lparr> t_cont = array_assign [0, 0x61, 0] 3 True, t_offset = 1 \<rparr>"

definition recs_a :: "unit record_type list" where
  "recs_a = [\<lparr> rec_key = [0x61], rec_value = () \<rparr>]"

text \<open>The single key of the one byte 0xFF.\<close>

definition recs_ff :: "unit record_type list" where
  "recs_ff = [\<lparr> rec_key = [0xFF], rec_value = () \<rparr>]"

definition recs_aa_ab :: "unit record_type list" where
  "recs_aa_ab = [\<lparr> rec_key = [0x61, 0x61], rec_value = () \<rparr>,
                 \<lparr> rec_key = [0x61, 0x62], rec_value = () \<rparr>]"

text \<open>A stream at its beginning that holds the bytes \<open>d\<close>.\<close>

definition stream_of :: "byte list \<Rightarrow> istream" where
  "stream_of d = \<lparr> is_data = d, is_pos = 0, is_failbit = False, is_eofbit = False \<rparr>"

text \<open>An SDAT chunk of 24 bytes that declares 5 records and holds an empty SDA5 chunk and
  no TAIL chunk.\<close>

definition image_no_tail :: "byte list" where
  "image_no_tail = [0x53, 0x44, 0x41, 0x54, 24, 0, 0, 0, 16, 0, 0, 0, 5, 0, 0, 0,
                    0x53, 0x44, 0x41, 0x35, 8, 0, 0, 0]"

text \<open>The state of the builder for \<open>n\<close> records and the character table \<open>tbl\<close> at the call
  of \<^verbatim>\<open>arrange(0, first, last)\<close> in \<^verbatim>\<open>build\<close>: the root is reserved and the tail holds the four
  zero bytes that \<^verbatim>\<open>clear\<close> wrote.\<close>

definition b_start :: "nat \<Rightarrow> (byte \<Rightarrow> byte) \<Rightarrow> element5 builder" where
  "b_start n tbl = \<lparr> b_i = 0, b_n = n, b_da = [d5, set_base5 d5 1], b_tail = [0, 0, 0, 0],
      b_table = tbl, b_used_bases = [],
      b_elink = [\<lparr>dl_prev = 2, dl_next = 2\<rparr>, \<lparr>dl_prev = 0, dl_next = 2\<rparr>, \<lparr>dl_prev = 0, dl_next = 3\<rparr>],
      b_stat = stat_zero \<rparr>"



text \<open>The state of the builder of 4-byte elements at the call of \<^verbatim>\<open>arrange\<close> in \<^verbatim>\<open>build\<close>.\<close>

definition b_start4 :: "nat \<Rightarrow> (byte \<Rightarrow> byte) \<Rightarrow> (32 word) builder" where
  "b_start4 n tbl = \<lparr> b_i = 0, b_n = n, b_da = [0, set_base4 0 1], b_tail = [0, 0, 0, 0],
      b_table = tbl, b_used_bases = [],
      b_elink = [\<lparr>dl_prev = 2, dl_next = 2\<rparr>, \<lparr>dl_prev = 0, dl_next = 2\<rparr>, \<lparr>dl_prev = 0, dl_next = 3\<rparr>],
      b_stat = stat_zero \<rparr>"

section \<open>The element encodings\<close>

lemma mask8: "(0xFF :: 32 word) = mask 8"
  by (simp add: mask_eq_exp_minus_1)

lemma not_mask8: "(0xFFFFFF00 :: 32 word) = NOT (mask 8)"
  by (simp add: mask_eq_exp_minus_1)

lemma signed_take_bit_23_self:
  fixes v :: "32 word"
  assumes "- 0x800000 \<le> sint v" and "sint v < 0x800000"
  shows "signed_take_bit 23 v = v"
proof -
  have "signed_take_bit 23 (sint v) = sint v"
    using assms by (simp add: signed_take_bit_int_eq_self_iff)
  then have "word_of_int (signed_take_bit 23 (sint v)) = (word_of_int (sint v) :: 32 word)"
    by simp
  then show ?thesis
    by (simp add: of_int_signed_take_bit)
qed

lemma get_check4_set_check4: "get_check4 (set_check4 e k) = k"
  unfolding get_check4_def set_check4_def mask8 not_mask8
  by (rule bit_word_eqI) (auto simp add: bit_simps)

lemma get_base4_set_check4: "get_base4 (set_check4 e k) = get_base4 e"
  unfolding get_base4_def set_check4_def mask8 not_mask8
  by (rule bit_word_eqI) (auto simp add: bit_simps dest: bit_imp_le_length)

lemma get_check4_set_base4: "get_check4 (set_base4 e v) = get_check4 e"
  unfolding get_check4_def set_base4_def mask8
  by (rule bit_word_eqI) (auto simp add: bit_simps)

lemma get_base4_set_base4:
  assumes s: "signed_take_bit 23 v = v"
  shows "get_base4 (set_base4 e v) = v"
  unfolding get_base4_def set_base4_def mask8
proof (rule bit_word_eqI)
  fix n assume n: "n < LENGTH(32)"
  have hi: "bit v m = bit v 23" if "23 \<le> m" "m < 32" for m
  proof -
    have "bit v m = bit (signed_take_bit 23 v) m" by (simp add: s)
    also have "\<dots> = bit v 23" using that by (simp add: bit_signed_take_bit_iff min_def)
    finally show ?thesis .
  qed
  show "bit (signed_drop_bit 8 (e AND mask 8 OR push_bit 8 v)) n = bit v n"
    using n hi[of n] hi[of 31] by (auto simp add: bit_simps)
qed

text \<open>
  C9. In the 4-byte element the BASE is the sign-extended high 24 bits and the CHECK the low
  8 bits: for every element \<open>e\<close>, every base \<open>v\<close> with \<open>-0x7FFFFF \<le> v \<le> 0x7FFFFF\<close> and every check
  byte \<open>k\<close>, reading back what was set gives the value set, and each setter leaves the other
  field as it was (32-bit wrap-around arithmetic).
\<close>

theorem doublearray4_roundtrip:
  assumes "- 0x7FFFFF \<le> sint v" and "sint v \<le> 0x7FFFFF"
  shows "get_base4 (set_base4 e v) = v
       \<and> get_check4 (set_base4 e v) = get_check4 e
       \<and> get_check4 (set_check4 e k) = k
       \<and> get_base4 (set_check4 e k) = get_base4 e"
proof -
  have "signed_take_bit 23 v = v"
    using assms by (intro signed_take_bit_23_self) simp_all
  then show ?thesis
    by (simp add: get_base4_set_base4 get_check4_set_base4 get_check4_set_check4
        get_base4_set_check4)
qed

theorem doublearray4_roundtrip_witness:
  "- 0x7FFFFF \<le> sint (- 5 :: 32 word) \<and> sint (- 5 :: 32 word) \<le> 0x7FFFFF
   \<and> get_base4 (set_base4 0x12345678 (- 5)) = - 5
   \<and> get_check4 (set_base4 0x12345678 (- 5)) = get_check4 0x12345678
   \<and> get_check4 (set_check4 0x12345678 0xAB) = 0xAB
   \<and> get_base4 (set_check4 0x12345678 0xAB) = get_base4 0x12345678"
proof -
  have a: "- 0x7FFFFF \<le> sint (- 5 :: 32 word)" by simp
  have b: "sint (- 5 :: 32 word) \<le> 0x7FFFFF" by simp
  show ?thesis
    using a b doublearray4_roundtrip [OF a b, of "0x12345678" "0xAB"] by blast
qed


lemma le32_bytes [simp]:
  "le32 (ucast v) (ucast (drop_bit 8 v)) (ucast (drop_bit 16 v)) (ucast (drop_bit 24 v)) = v"
  unfolding le32_def
proof (rule bit_word_eqI)
  fix n assume n: "n < LENGTH(32)"
  consider "n < 8" | "8 \<le> n" "n < 16" | "16 \<le> n" "n < 24" | "24 \<le> n" "n < 32"
    using n by fastforce
  then show "bit (ucast (ucast v :: byte) OR push_bit 8 (ucast (ucast (drop_bit 8 v) :: byte))
                  OR push_bit 16 (ucast (ucast (drop_bit 16 v) :: byte))
                  OR push_bit 24 (ucast (ucast (drop_bit 24 v) :: byte)) :: 32 word) n = bit v n"
    by cases (auto simp add: bit_simps)
qed

lemma get_base5_set_base5 [simp]: "get_base5 (set_base5 e v) = v"
  by (simp add: get_base5_def set_base5_def)

lemma get_check5_set_base5 [simp]: "get_check5 (set_base5 e v) = get_check5 e"
  by (simp add: get_check5_def set_base5_def)

lemma get_check5_set_check5 [simp]: "get_check5 (set_check5 e k) = k"
  by (simp add: get_check5_def set_check5_def)

lemma get_base5_set_check5 [simp]: "get_base5 (set_check5 e k) = get_base5 e"
  by (simp add: get_base5_def set_check5_def)

lemma get_base5_default [simp]: "get_base5 (default_value doublearray5_traits) = 0"
  by (simp add: get_base5_def doublearray5_traits_def le32_def)

lemma get_check5_default [simp]: "get_check5 (default_value doublearray5_traits) = 0"
  by (simp add: get_check5_def doublearray5_traits_def)

lemma traits5_sel [simp]:
  "get_base doublearray5_traits = get_base5" "get_check doublearray5_traits = get_check5"
  "set_base doublearray5_traits = set_base5" "set_check doublearray5_traits = set_check5"
  "max_base doublearray5_traits = 0x7FFFFFFF" "sizeof_element doublearray5_traits = 5"
  by (simp_all add: doublearray5_traits_def)

lemma get_base5_d5 [simp]: "get_base5 d5 = 0"
  by (simp add: d5_def)

lemma get_check5_d5 [simp]: "get_check5 d5 = 0"
  by (simp add: d5_def)

section \<open>The tail array: exact match\<close>

lemma c_str_no_zero: "0 \<notin> set (c_str s)"
  by (auto simp: c_str_def dest: set_takeWhileD)

lemma c_str_append_zero: "0 \<notin> set a \<Longrightarrow> c_str (a @ 0 # r) = a"
  by (induction a) (simp_all add: c_str_def)

lemma c_str_split: "0 \<in> set m \<Longrightarrow> \<exists>r. m = c_str m @ 0 # r"
  unfolding c_str_def
  by (metis (mono_tags, lifting) takeWhile_dropWhile_id dropWhile_eq_Nil_conv hd_dropWhile
      list.collapse)

text \<open>
  What \<^verbatim>\<open>match_string\<close> computes when a string is stored at the read position of a tail
  that covers its memory: the stored string equals the query, and its terminator is not
  the last byte of the tail.
\<close>

lemma match_string_iff:
  assumes blk: "a_block (t_cont t) = Some mem" and sz: "a_size (t_cont t) = length mem"
    and z: "mem_strlen mem (t_offset t) = Some n"
  shows "match_string t str =
           Inr (c_str (drop (t_offset t) mem) = c_str str
                \<and> t_offset t + c_strlen str + 1 < length mem)"
proof (cases "t_offset t + c_strlen str + 1 < length mem")
  case False
  then show ?thesis by (simp add: match_string_def sz)
next
  case True
  from z have zin: "0 \<in> set (drop (t_offset t) mem)"
    by (simp add: mem_strlen_def split: if_splits)
  then obtain r where r: "drop (t_offset t) mem = c_str (drop (t_offset t) mem) @ 0 # r"
    using c_str_split by blast
  let ?d = "drop (t_offset t) mem"
  have "(take (c_strlen str + 1) ?d = c_str str @ [0]) = (c_str ?d = c_str str)"
  proof
    assume a: "take (c_strlen str + 1) ?d = c_str str @ [0]"
    have "?d = (c_str str @ [0]) @ drop (c_strlen str + 1) ?d"
      by (metis a append_take_drop_id)
    then obtain r' where "?d = c_str str @ 0 # r'"
      by (metis append_Cons append_Nil append_assoc)
    then show "c_str ?d = c_str str"
      using c_str_append_zero[OF c_str_no_zero] by metis
  next
    assume a: "c_str ?d = c_str str"
    show "take (c_strlen str + 1) ?d = c_str str @ [0]"
      by (subst r) (simp add: a c_strlen_def)
  qed
  with True show ?thesis
    by (simp add: match_string_def sz tail_memcmp_eq_def blk c_strlen_def)
qed


text \<open>
  C3. \<^verbatim>\<open>match_string\<close> is to return true exactly when the string stored at the read position
  equals the query, also when the terminator of the stored string is the last byte of the
  tail. In the tail \<open>0 a 0\<close>, at read position 1, the string \<open>a\<close> is stored and equals the
  query \<open>a\<close>; the code compares \<^verbatim>\<open>m_offset + length < m_cont.size()\<close>, that is \<open>3 < 3\<close>, and
  returns false.
\<close>

theorem match_string_at_end_of_tail:
  "mem_strlen [0, 0x61, 0] (t_offset tail_a) = Some 1
   \<and> c_str (drop (t_offset tail_a) [0, 0x61, 0]) = c_str [0x61]
   \<and> match_string tail_a [0x61] = Inr False"
  by (simp add: tail_a_def match_string_def array_assign_def c_strlen_def c_str_def mem_strlen_def)

section \<open>Lookups change the read position of the tail only\<close>

lemma seekg_frame: "seekg t off = t\<lparr> t_offset := t_offset (seekg t off) \<rparr>"
  by (simp add: seekg_def)

lemma seekg_cont [simp]: "t_cont (seekg t off) = t_cont t"
  by (simp add: seekg_def)

lemma seekg_offset_only: "\<exists>off'. seekg t off = t\<lparr> t_offset := off' \<rparr>"
  by (metis seekg_frame)

lemma locate_frame:
  assumes "locate T tr key = Inr (off, tr')"
  shows "\<exists>off'. tr' = tr\<lparr> m_tail := (m_tail tr)\<lparr> t_offset := off' \<rparr> \<rparr>"
proof (cases "locate_loop T tr INITIAL_INDEX key")
  case (Inl e)
  with assms show ?thesis by (simp add: locate_def)
next
  case (Inr x)
  show ?thesis
  proof (cases x)
    case None
    with Inr assms have "tr' = tr" by (simp add: locate_def)
    then have "tr' = tr\<lparr> m_tail := (m_tail tr)\<lparr> t_offset := t_offset (m_tail tr) \<rparr> \<rparr>" by simp
    then show ?thesis ..
  next
    case (Some op)
    obtain offset p where op: "op = (offset, p)" by (cases op)
    obtain off' where s: "seekg (m_tail tr) offset = (m_tail tr)\<lparr> t_offset := off' \<rparr>"
      using seekg_offset_only by blast
    from assms Inr Some op have "tr' = tr\<lparr> m_tail := seekg (m_tail tr) offset \<rparr>"
      by (auto simp: locate_def Let_def split: sum.splits bool.splits)
    with s show ?thesis by auto
  qed
qed

lemma keeps_empty: "keeps_tail_content empty_type"
  by (simp add: keeps_tail_content_def empty_type_def)
lemma keeps_int: "keeps_tail_content int_type"
  by (auto simp add: keeps_tail_content_def int_type_def itail_read_def split: sum.splits option.splits if_splits prod.splits)
lemma keeps_string: "keeps_tail_content string_type"
  by (auto simp add: keeps_tail_content_def string_type_def split: sum.splits option.splits if_splits prod.splits)

lemma offset_only_self:
  assumes "tr' = tr\<lparr> m_tail := (m_tail tr)\<lparr> t_offset := off' \<rparr> \<rparr>"
  shows "tr' = tr\<lparr> m_tail := (m_tail tr)\<lparr> t_offset := t_offset (m_tail tr') \<rparr> \<rparr>"
  by (subst (2) assms) (simp add: assms)


text \<open>
  C10. A call of \<^verbatim>\<open>in(key)\<close> or \<^verbatim>\<open>find(key, value)\<close> that returns leaves the double array, the
  contents of the tail array, the character table, the record count (and the memory block)
  as they were: the trie after the call is the trie before it with another read position of
  the tail. For \<^verbatim>\<open>find\<close> the value type must be one whose \<^verbatim>\<open>operator>>\<close> only reads the tail, as
  the built-in ones do (\<open>keeps_empty\<close>, \<open>keeps_int\<close>, \<open>keeps_string\<close>).
\<close>

theorem lookup_frame:
  "(trie_in T tr key = Inr (r, tr') \<longrightarrow>
      tr' = tr\<lparr> m_tail := (m_tail tr)\<lparr> t_offset := t_offset (m_tail tr') \<rparr> \<rparr>)
 \<and> (keeps_tail_content V \<and> find T V tr key = Inr (r, v, tr'') \<longrightarrow>
      tr'' = tr\<lparr> m_tail := (m_tail tr)\<lparr> t_offset := t_offset (m_tail tr'') \<rparr> \<rparr>)"
proof (intro conjI impI)
  assume "trie_in T tr key = Inr (r, tr')"
  then obtain off where "locate T tr key = Inr (off, tr')"
    by (auto simp: trie_in_def split: sum.splits)
  from locate_frame[OF this] show "tr' = tr\<lparr> m_tail := (m_tail tr)\<lparr> t_offset := t_offset (m_tail tr') \<rparr> \<rparr>"
    using offset_only_self by blast
next
  assume a: "keeps_tail_content V \<and> find T V tr key = Inr (r, v, tr'')"
  then obtain off tr1 where l: "locate T tr key = Inr (off, tr1)"
    by (auto simp: find_def split: sum.splits)
  from locate_frame[OF l] obtain o1 where
    f1: "tr1 = tr\<lparr> m_tail := (m_tail tr)\<lparr> t_offset := o1 \<rparr> \<rparr>" by blast
  have "\<exists>o2. tr'' = tr\<lparr> m_tail := (m_tail tr)\<lparr> t_offset := o2 \<rparr> \<rparr>"
  proof (cases "off = 0")
    case True
    with a l f1 show ?thesis by (auto simp add: find_def)
  next
    case False
    with a l obtain tl where rv: "read_value V (seekg (m_tail tr1) off) = Inr (v, tl)"
      and t2: "tr'' = tr1\<lparr> m_tail := tl \<rparr>"
      by (auto simp: find_def split: sum.splits)
    from a rv have "t_cont tl = t_cont (m_tail tr1)"
      by (auto simp: keeps_tail_content_def)
    then have e1: "tl = (m_tail tr1)\<lparr> t_offset := t_offset tl \<rparr>" by simp
    have m1: "m_tail tr1 = (m_tail tr)\<lparr> t_offset := o1 \<rparr>"
      by (subst f1) simp
    have e2: "tl = (m_tail tr)\<lparr> t_offset := t_offset tl \<rparr>"
      by (subst e1, subst m1) simp
    have "tr'' = tr\<lparr> m_tail := tl \<rparr>"
      by (subst t2, subst f1) simp
    with e2 have "tr'' = tr\<lparr> m_tail := (m_tail tr)\<lparr> t_offset := t_offset tl \<rparr> \<rparr>"
      by simp
    then show ?thesis ..
  qed
  then show "tr'' = tr\<lparr> m_tail := (m_tail tr)\<lparr> t_offset := t_offset (m_tail tr'') \<rparr> \<rparr>"
    using offset_only_self by blast
qed

lemma int32_of_7: "int32_of_bytes [7, 0, 0, 0] = 7"
  by (simp add: int32_of_bytes_def le32_def char_at_def)

lemma trie_in_a7:
  "trie_in doublearray5_traits trie_a7 [0x61]
     = Inr (True, trie_a7\<lparr> m_tail := (m_tail trie_a7)\<lparr> t_offset := 4 \<rparr> \<rparr>)"
  by (simp add: trie_in_def locate_def trie_a7_def assign_builder_def trie_init_def descend_def
      trie_get_base_def trie_get_check_def array_at_def array_assign_def itail_assign_def
      itail_init_def INITIAL_INDEX_def INVALID_INDEX_def char_at_def size_of_neg_def seekg_def
      match_string_def c_strlen_def c_str_def tail_memcmp_eq_def itail_strlen_def mem_strlen_def
      array_empty_def)

lemma find_a7:
  "find doublearray5_traits int_type trie_a7 [0x61]
     = Inr (True, Some 7, trie_a7\<lparr> m_tail := (m_tail trie_a7)\<lparr> t_offset := 9 \<rparr> \<rparr>)"
  by (simp add: find_def locate_def trie_a7_def assign_builder_def trie_init_def descend_def
      trie_get_base_def trie_get_check_def array_at_def array_assign_def itail_assign_def
      itail_init_def INITIAL_INDEX_def INVALID_INDEX_def char_at_def size_of_neg_def seekg_def
      match_string_def c_strlen_def c_str_def tail_memcmp_eq_def itail_strlen_def mem_strlen_def
      array_empty_def int_type_def itail_read_def int32_of_7)

text \<open>On the trie \<open>trie_a7\<close>, whose read position is 0, \<^verbatim>\<open>in("a")\<close> leaves the read position at
  4 and \<^verbatim>\<open>find("a", value)\<close> at 9: lookups do move the shared read position.\<close>

theorem lookup_frame_witness:
  "trie_in doublearray5_traits trie_a7 [0x61]
     = Inr (True, trie_a7\<lparr> m_tail := (m_tail trie_a7)\<lparr> t_offset := 4 \<rparr> \<rparr>)
   \<and> keeps_tail_content int_type
   \<and> find doublearray5_traits int_type trie_a7 [0x61]
     = Inr (True, Some 7, trie_a7\<lparr> m_tail := (m_tail trie_a7)\<lparr> t_offset := 9 \<rparr> \<rparr>)
   \<and> t_offset (m_tail trie_a7) = 0
   \<and> trie_a7\<lparr> m_tail := (m_tail trie_a7)\<lparr> t_offset := 4 \<rparr> \<rparr>
       = trie_a7\<lparr> m_tail := (m_tail trie_a7)\<lparr> t_offset :=
           t_offset (m_tail (trie_a7\<lparr> m_tail := (m_tail trie_a7)\<lparr> t_offset := 4 \<rparr> \<rparr>)) \<rparr> \<rparr>
   \<and> trie_a7\<lparr> m_tail := (m_tail trie_a7)\<lparr> t_offset := 9 \<rparr> \<rparr>
       = trie_a7\<lparr> m_tail := (m_tail trie_a7)\<lparr> t_offset :=
           t_offset (m_tail (trie_a7\<lparr> m_tail := (m_tail trie_a7)\<lparr> t_offset := 9 \<rparr> \<rparr>)) \<rparr> \<rparr>"
proof -
  have z: "t_offset (m_tail trie_a7) = 0"
    by (simp add: trie_a7_def assign_builder_def trie_init_def itail_assign_def itail_init_def)
  show ?thesis
    using lookup_frame [of doublearray5_traits trie_a7 "[0x61]" True
        "trie_a7\<lparr> m_tail := (m_tail trie_a7)\<lparr> t_offset := 4 \<rparr> \<rparr>" int_type "Some 7"
        "trie_a7\<lparr> m_tail := (m_tail trie_a7)\<lparr> t_offset := 9 \<rparr> \<rparr>"]
      trie_in_a7 find_a7 keeps_int z
    by blast
qed

section \<open>The character table\<close>

lemma length_freq_table [simp]: "length (freq_table g) = NUMCHARS"
  by (simp add: freq_table_def)

lemma nth_freq_table [simp]: "i < NUMCHARS \<Longrightarrow> freq_table g ! i = \<lparr> uf_c = i, uf_freq = g i \<rparr>"
  by (simp add: freq_table_def)

lemma unat_byte_less: "unat (c :: byte) < NUMCHARS"
  using unsigned_less[of c, where 'a=nat] by (simp add: NUMCHARS_def)

lemma unat_of_nat_byte: "i < NUMCHARS \<Longrightarrow> unat (of_nat i :: byte) = i"
  by (simp add: unat_of_nat NUMCHARS_def)

lemma unat_eq_iff_byte: "i < NUMCHARS \<Longrightarrow> (unat (ch :: byte) = i) = (ch = of_nat i)"
  using unat_of_nat_byte by fastforce

lemma increment_freq_table:
  "c < NUMCHARS \<Longrightarrow> increment_freq (freq_table g) c = freq_table (g(c := g c + 1))"
  by (rule nth_equalityI) (auto simp: increment_freq_def nth_list_update)

lemma fold_increment_freq_table:
  "fold (\<lambda>ch st. increment_freq st (unat (ch :: byte))) s (freq_table g)
     = freq_table (\<lambda>i. g i + count_list (map unat s) i)"
proof (induction s arbitrary: g)
  case Nil
  then show ?case by simp
next
  case (Cons ch s)
  have lt: "unat ch < NUMCHARS" by (rule unat_byte_less)
  have "fold (\<lambda>ch st. increment_freq st (unat ch)) (ch # s) (freq_table g)
          = fold (\<lambda>ch st. increment_freq st (unat ch)) s (increment_freq (freq_table g) (unat ch))"
    by simp
  also have "\<dots> = fold (\<lambda>ch st. increment_freq st (unat ch)) s
                       (freq_table (g(unat ch := g (unat ch) + 1)))"
    by (simp only: increment_freq_table[OF lt])
  also have "\<dots> = freq_table (\<lambda>i. (g(unat ch := g (unat ch) + 1)) i + count_list (map unat s) i)"
    by (rule Cons.IH)
  also have "\<dots> = freq_table (\<lambda>i. g i + count_list (map unat (ch # s)) i)"
    by (rule arg_cong[where f=freq_table]) (auto simp: fun_eq_iff)
  finally show ?case .
qed

lemma count_key_freq_table:
  "count_key (freq_table g) k
     = freq_table (\<lambda>i. g i + count_list (map unat (c_str k)) i + (if i = 0 then 1 else 0))"
proof -
  have "(0::nat) < NUMCHARS" by (simp add: NUMCHARS_def)
  then show ?thesis
    unfolding count_key_def fold_increment_freq_table
    by (subst increment_freq_table) (auto simp: fun_eq_iff intro!: arg_cong[where f=freq_table])
qed

lemma count_list_map_unat:
  "i < NUMCHARS \<Longrightarrow> count_list (map unat s) i = count_list s (of_nat i :: byte)"
proof (induction s)
  case Nil
  then show ?case by simp
next
  case (Cons ch s)
  have "(unat ch = i) = (ch = of_nat i)"
    using Cons.prems by (rule unat_eq_iff_byte)
  with Cons show ?case by simp
qed

lemma fold_count_key:
  "fold (\<lambda>it st. count_key st (rec_key it)) recs (freq_table g)
     = freq_table (\<lambda>i. g i + (\<Sum>r\<leftarrow>recs. count_list (map unat (c_str (rec_key r))) i)
                          + (if i = 0 then length recs else 0))"
proof (induction recs arbitrary: g)
  case Nil
  show ?case by (simp cong: if_cong)
next
  case (Cons r recs)
  show ?case
    by (simp add: count_key_freq_table Cons.IH)
       (auto simp: fun_eq_iff intro!: arg_cong[where f=freq_table])
qed

lemma count_records_eq:
  "count_records recs = freq_table (\<lambda>i. key_freq recs (of_nat i))"
proof -
  have "count_records recs = fold (\<lambda>it st. count_key st (rec_key it)) recs (freq_table (\<lambda>i. 0))"
    by (simp add: count_records_def freq_table_def)
  also have "\<dots> = freq_table (\<lambda>i. (\<Sum>r\<leftarrow>recs. count_list (map unat (c_str (rec_key r))) i)
                          + (if i = 0 then length recs else 0))"
    by (simp add: fold_count_key)
  also have "\<dots> = freq_table (\<lambda>i. key_freq recs (of_nat i))"
    unfolding freq_table_def
  proof (rule map_cong[OF refl])
    fix i assume "i \<in> set [0..<NUMCHARS]"
    then have i: "i < NUMCHARS" by simp
    have z: "((of_nat i :: byte) = 0) = (i = 0)"
      using unat_eq_iff_byte[OF i, of 0] by auto
    have "(\<Sum>r\<leftarrow>recs. count_list (map unat (c_str (rec_key r))) i)
           = (\<Sum>r\<leftarrow>recs. count_list (c_str (rec_key r)) (of_nat i :: byte))"
      using i by (simp add: count_list_map_unat)
    then show "\<lparr>uf_c = i, uf_freq = (\<Sum>r\<leftarrow>recs. count_list (map unat (c_str (rec_key r))) i) + (if i = 0 then length recs else 0)\<rparr>
         = \<lparr>uf_c = i, uf_freq = key_freq recs (word_of_nat i)\<rparr>"
      by (simp add: key_freq_def z)
  qed
  finally show ?thesis .
qed


lemma fold_table_upd:
  fixes k :: "nat \<Rightarrow> byte"
  assumes "inj_on k {..<n}"
  shows "(\<forall>i<n. fold (\<lambda>i t. t(k i := of_nat i)) [0..<n] t0 (k i) = (of_nat i :: byte))
       \<and> (\<forall>c. c \<notin> k ` {..<n} \<longrightarrow> fold (\<lambda>i t. t(k i := of_nat i)) [0..<n] t0 c = t0 c)"
  using assms
proof (induction n)
  case 0
  then show ?case by simp
next
  case (Suc n)
  define F where "F m = fold (\<lambda>i t. t(k i := (of_nat i :: byte))) [0..<m] t0" for m
  have step: "F (Suc n) = (F n)(k n := of_nat n)"
    by (simp add: F_def)
  have inj: "inj_on k {..<n}" using Suc.prems by (auto simp: inj_on_def)
  have IH1: "F n (k i) = of_nat i" if "i < n" for i
    using Suc.IH[OF inj] that unfolding F_def by blast
  have IH2: "F n c = t0 c" if "c \<notin> k ` {..<n}" for c
    using Suc.IH[OF inj] that unfolding F_def by blast
  have new: "k i \<noteq> k n" if "i < n" for i
    using Suc.prems that by (auto simp: inj_on_def)
  have "F (Suc n) (k i) = of_nat i" if "i < Suc n" for i
  proof (cases "i = n")
    case True
    then show ?thesis by (simp add: step)
  next
    case False
    with that have "i < n" by simp
    then show ?thesis using new IH1 by (simp add: step)
  qed
  moreover have "F (Suc n) c = t0 c" if "c \<notin> k ` {..<Suc n}" for c
  proof -
    from that have "c \<noteq> k n" "c \<notin> k ` {..<n}" by auto
    then show ?thesis using IH2 by (simp add: step)
  qed
  ultimately show ?case unfolding F_def by blast
qed

lemma sorted_counts:
  fixes recs :: "'v record_type list"
  assumes spec: "std_sort_spec srt"
  defines "st \<equiv> srt comp_freq (count_records recs)"
  shows "length st = NUMCHARS"
    and "distinct (map uf_c st)"
    and "set (map uf_c st) = {0..<NUMCHARS}"
    and "\<And>i. i < NUMCHARS \<Longrightarrow> uf_freq (st ! i) = key_freq recs (of_nat (uf_c (st ! i)))"
    and "\<And>i j. i < j \<Longrightarrow> j < NUMCHARS \<Longrightarrow> uf_freq (st ! j) \<le> uf_freq (st ! i)"
proof -
  let ?ft = "freq_table (\<lambda>i. key_freq recs (of_nat i))"
  have m: "mset st = mset ?ft"
    using spec by (simp add: std_sort_spec_def st_def count_records_eq)
  have srt: "sorted_wrt (\<lambda>x y. \<not> comp_freq y x) st"
    using spec by (simp add: std_sort_spec_def st_def)
  show len: "length st = NUMCHARS"
    using mset_eq_length[OF m] by simp
  have mc: "mset (map uf_c st) = mset (map uf_c ?ft)"
    using m by (metis mset_map)
  have c: "map uf_c ?ft = [0..<NUMCHARS]"
    by (simp add: freq_table_def comp_def)
  show "distinct (map uf_c st)"
    using mset_eq_imp_distinct_iff[OF mc] c by simp
  show "set (map uf_c st) = {0..<NUMCHARS}"
    using mset_eq_setD[OF mc] c by simp
  show "uf_freq (st ! i) = key_freq recs (of_nat (uf_c (st ! i)))" if "i < NUMCHARS" for i
  proof -
    have "st ! i \<in> set ?ft"
      using that len mset_eq_setD[OF m] by (metis nth_mem)
    then show ?thesis by (auto simp: freq_table_def)
  qed
  show "uf_freq (st ! j) \<le> uf_freq (st ! i)" if "i < j" "j < NUMCHARS" for i j
  proof -
    have "\<not> comp_freq (st ! j) (st ! i)"
      using srt that len by (simp add: sorted_wrt_iff_nth_less)
    then show ?thesis by (simp add: comp_freq_def)
  qed
qed

lemma build_table_props:
  assumes spec: "std_sort_spec srt"
  shows "bij (build_table srt t0 recs)"
    and "\<And>c d. key_freq recs d < key_freq recs c
           \<Longrightarrow> build_table srt t0 recs c < build_table srt t0 recs d"
    and "build_table srt t1 recs = build_table srt t0 recs"
proof -
  define st where "st = srt comp_freq (count_records recs)"
  define k :: "nat \<Rightarrow> byte" where "k i = of_nat (uf_c (st ! i))" for i
  note sc = sorted_counts[OF spec, where recs=recs, folded st_def]
  have tbl: "build_table srt t0 recs = fold (\<lambda>i t. t(k i := of_nat i)) [0..<NUMCHARS] t0"
    by (simp add: build_table_def Let_def st_def k_def)
  have ltc: "uf_c (st ! i) < NUMCHARS" if "i < NUMCHARS" for i
  proof -
    have "uf_c (st ! i) \<in> set (map uf_c st)" using that sc(1) by simp
    then show ?thesis unfolding sc(3) by simp
  qed
  have inj: "inj_on k {..<NUMCHARS}"
  proof (rule inj_onI)
    fix i j assume ij: "i \<in> {..<NUMCHARS}" "j \<in> {..<NUMCHARS}" and e: "k i = k j"
    then have "unat (k i) = unat (k j)" by simp
    then have "uf_c (st ! i) = uf_c (st ! j)"
      using ij ltc by (simp add: k_def unat_of_nat_byte)
    then have "map uf_c st ! i = map uf_c st ! j" using ij sc(1) by simp
    moreover have "i < length (map uf_c st)" "j < length (map uf_c st)"
      using ij sc(1) by simp_all
    ultimately show "i = j"
      using nth_eq_iff_index_eq[OF sc(2)] by blast
  qed
  have surj: "\<exists>i<NUMCHARS. k i = c" for c
  proof -
    have "unat c \<in> set (map uf_c st)" unfolding sc(3) using unat_byte_less by simp
    then obtain i where "i < length st" "uf_c (st ! i) = unat c"
      by (auto simp: in_set_conv_nth)
    then show ?thesis using sc(1) by (auto simp: k_def)
  qed
  have at: "build_table srt t0 recs (k i) = of_nat i" if "i < NUMCHARS" for i
    using fold_table_upd[OF inj, of t0] that by (simp add: tbl)
  have tbl1: "build_table srt t1 recs = fold (\<lambda>i t. t(k i := of_nat i)) [0..<NUMCHARS] t1"
    by (simp add: build_table_def Let_def st_def k_def)
  have at1: "build_table srt t1 recs (k i) = of_nat i" if "i < NUMCHARS" for i
    using fold_table_upd[OF inj, of t1] that by (simp add: tbl1)
  show "build_table srt t1 recs = build_table srt t0 recs"
  proof (rule ext)
    fix c
    obtain i where i: "i < NUMCHARS" "k i = c"
      using surj by blast
    from at[OF i(1)] at1[OF i(1)] i(2) show "build_table srt t1 recs c = build_table srt t0 recs c"
      by simp
  qed
  have injt: "inj (build_table srt t0 recs)"
  proof (rule injI)
    fix c d assume e: "build_table srt t0 recs c = build_table srt t0 recs d"
    obtain i j where i: "i < NUMCHARS" "k i = c" and j: "j < NUMCHARS" "k j = d"
      using surj by blast
    from e at[OF i(1)] at[OF j(1)] i j have "(of_nat i :: byte) = of_nat j" by simp
    then have "unat (of_nat i :: byte) = unat (of_nat j :: byte)" by simp
    then have "i = j" using i j by (simp add: unat_of_nat_byte)
    then show "c = d" using i j by simp
  qed
  show "bij (build_table srt t0 recs)"
    using injt by (simp add: bij_def finite_UNIV_inj_surj)
  show "build_table srt t0 recs c < build_table srt t0 recs d"
    if lt: "key_freq recs d < key_freq recs c" for c d
  proof -
    obtain i j where i: "i < NUMCHARS" "k i = c" and j: "j < NUMCHARS" "k j = d"
      using surj by blast
    have fi: "uf_freq (st ! i) = key_freq recs c" using sc(4)[OF i(1)] i by (simp add: k_def)
    have fj: "uf_freq (st ! j) = key_freq recs d" using sc(4)[OF j(1)] j by (simp add: k_def)
    have "\<not> j \<le> i"
    proof
      assume "j \<le> i"
      then consider "j = i" | "j < i" by linarith
      then show False
      proof cases
        case 1 then show ?thesis using fi fj lt by simp
      next
        case 2 then show ?thesis using sc(5)[OF 2 i(1)] fi fj lt by simp
      qed
    qed
    then have "i < j" by simp
    then have "(of_nat i :: byte) < of_nat j"
      using i j by (simp add: word_less_nat_alt unat_of_nat_byte)
    then show ?thesis using at[OF i(1)] at[OF j(1)] i j by simp
  qed
qed

lemma card_less_byte: "card {x :: byte. x < t} = unat t"
proof -
  have "unat ` {x :: byte. x < t} = {..<unat t}"
  proof (intro set_eqI iffI)
    fix n assume "n \<in> unat ` {x. x < t}"
    then show "n \<in> {..<unat t}" by (auto simp: word_less_nat_alt)
  next
    fix n assume n: "n \<in> {..<unat t}"
    then have "n < NUMCHARS" using unat_byte_less[of t] by simp
    then have "unat (of_nat n :: byte) = n" by (rule unat_of_nat_byte)
    with n show "n \<in> unat ` {x. x < t}"
      by (intro image_eqI[where x="of_nat n"]) (auto simp: word_less_nat_alt)
  qed
  moreover have "inj_on unat {x :: byte. x < t}"
    by (auto simp: inj_on_def word_unat_eq_iff)
  ultimately show ?thesis
    by (metis card_image card_lessThan)
qed

lemma build_table_rank:
  assumes spec: "std_sort_spec srt"
    and uniq: "\<forall>d. d \<noteq> c \<longrightarrow> key_freq recs d \<noteq> key_freq recs c"
  shows "unat (build_table srt t0 recs c) = card {d. key_freq recs c < key_freq recs d}"
proof -
  let ?t = "build_table srt t0 recs"
  note p = build_table_props[OF spec, where ?t0.0=t0 and recs=recs]
  have "{d. key_freq recs c < key_freq recs d} = {d. ?t d < ?t c}"
  proof (intro set_eqI iffI; clarsimp)
    fix d assume "key_freq recs c < key_freq recs d"
    then show "?t d < ?t c" by (rule p(2))
  next
    fix d assume a: "?t d < ?t c"
    then have "d \<noteq> c" by auto
    with uniq have ne: "key_freq recs d \<noteq> key_freq recs c" by simp
    have "\<not> key_freq recs d < key_freq recs c"
      using p(2)[of d c] a by auto
    with ne show "key_freq recs c < key_freq recs d" by simp
  qed
  moreover have "?t ` {d. ?t d < ?t c} = {x. x < ?t c}"
  proof (intro set_eqI iffI)
    fix x assume "x \<in> ?t ` {d. ?t d < ?t c}"
    then show "x \<in> {x. x < ?t c}" by auto
  next
    fix x assume x: "x \<in> {x. x < ?t c}"
    from p(1) obtain d where "?t d = x" unfolding bij_def surj_def by metis
    with x show "x \<in> ?t ` {d. ?t d < ?t c}" by auto
  qed
  moreover have "card (?t ` {d. ?t d < ?t c}) = card {d. ?t d < ?t c}"
    using p(1) by (intro card_image) (auto simp: bij_def inj_on_def)
  ultimately show ?thesis by (simp add: card_less_byte)
qed


lemma mset_insert_by: "mset (insert_by cmp x ys) = add_mset x (mset ys)"
  by (induction ys) simp_all

lemma set_insert_by: "set (insert_by cmp x ys) = insert x (set ys)"
  by (induction ys) auto

lemma mset_stable_sort: "mset (stable_sort cmp xs) = mset xs"
  by (induction xs) (simp_all add: stable_sort_def mset_insert_by)

lemma sorted_insert_by_freq:
  "sorted_wrt (\<lambda>x y. \<not> comp_freq y x) ys \<Longrightarrow> sorted_wrt (\<lambda>x y. \<not> comp_freq y x) (insert_by comp_freq x ys)"
  by (induction ys) (auto simp: set_insert_by comp_freq_def)

lemma sorted_stable_sort: "sorted_wrt (\<lambda>x y. \<not> comp_freq y x) (stable_sort comp_freq xs)"
proof (induction xs)
  case Nil
  then show ?case by (simp add: stable_sort_def)
next
  case (Cons x xs)
  then show ?case
    using sorted_insert_by_freq[of "stable_sort comp_freq xs" x] by (simp add: stable_sort_def)
qed

lemma std_sort_spec_stable_sort: "std_sort_spec stable_sort"
  by (simp add: std_sort_spec_def mset_stable_sort sorted_stable_sort)

lemma std_sort_spec_reversing_sort: "std_sort_spec reversing_sort"
  by (simp add: std_sort_spec_def reversing_sort_def mset_stable_sort sorted_stable_sort)

text \<open>
  C6, as the code has it. The frequency counted for a byte is the number of its occurrences
  in the keys, plus one occurrence of the byte 0 for each record. With every \<^verbatim>\<open>std::sort\<close>
  the C++ standard allows, the table is a permutation of the bytes, and a byte of strictly
  greater frequency has the smaller rank. (The order of bytes of equal frequency is the one
  \<^verbatim>\<open>std::sort\<close> leaves: \<^verbatim>\<open>comp_freq\<close> compares frequencies only.) The table is determined by
  the records: every entry is written, so nothing of the table the builder held before
  remains.
\<close>

theorem build_table_ranks:
  assumes "std_sort_spec std_sort"
  shows "count_records recs = map (\<lambda>i. \<lparr> uf_c = i, uf_freq = key_freq recs (of_nat i) \<rparr>) [0..<NUMCHARS]
       \<and> bij (build_table std_sort table recs)
       \<and> (\<forall>c d. key_freq recs d < key_freq recs c
              \<longrightarrow> build_table std_sort table recs c < build_table std_sort table recs d)
       \<and> (\<forall>table'. build_table std_sort table' recs = build_table std_sort table recs)"
proof -
  note p = build_table_props[OF assms, where recs=recs]
  have "count_records recs = map (\<lambda>i. \<lparr> uf_c = i, uf_freq = key_freq recs (of_nat i) \<rparr>) [0..<NUMCHARS]"
    using count_records_eq[of recs] by (simp add: freq_table_def)
  moreover have "bij (build_table std_sort table recs)" by (rule p(1))
  moreover have "\<forall>c d. key_freq recs d < key_freq recs c
              \<longrightarrow> build_table std_sort table recs c < build_table std_sort table recs d"
    using p(2)[where ?t0.0=table] by blast
  moreover have "\<forall>table'. build_table std_sort table' recs = build_table std_sort table recs"
    using p(3)[where ?t0.0=table] by blast
  ultimately show ?thesis by blast
qed

lemma key_freq_recs_a: "key_freq recs_a c = (if c = 0x61 \<or> c = 0 then 1 else 0)"
  by (simp add: key_freq_def recs_a_def c_str_def)

theorem build_table_ranks_witness:
  "std_sort_spec stable_sort
   \<and> key_freq recs_a 0x62 < key_freq recs_a 0x61
   \<and> build_table stable_sort (\<lambda>i. i) recs_a 0x61 < build_table stable_sort (\<lambda>i. i) recs_a 0x62
   \<and> bij (build_table stable_sort (\<lambda>i. i) recs_a)
   \<and> build_table stable_sort (\<lambda>i. 0) recs_a = build_table stable_sort (\<lambda>i. i) recs_a"
proof -
  have lt: "key_freq recs_a 0x62 < key_freq recs_a 0x61"
    by (simp add: key_freq_recs_a)
  note r = build_table_ranks [OF std_sort_spec_stable_sort, where recs=recs_a and table="\<lambda>i. i"]
  from r have b: "bij (build_table stable_sort (\<lambda>i. i) recs_a)" by (rule conjunct2[THEN conjunct1])
  from r lt have l: "build_table stable_sort (\<lambda>i. i) recs_a 0x61 < build_table stable_sort (\<lambda>i. i) recs_a 0x62"
    by blast
  from r have "\<forall>table'. build_table stable_sort table' recs_a = build_table stable_sort (\<lambda>i. i) recs_a"
    by (rule conjunct2[THEN conjunct2, THEN conjunct2])
  then have d: "build_table stable_sort (\<lambda>i. 0) recs_a = build_table stable_sort (\<lambda>i. i) recs_a"
    by (rule spec)
  from std_sort_spec_stable_sort lt l b d show ?thesis by (intro conjI)
qed

text \<open>
  C6, as the claim states it, asks that of two bytes of equal frequency the smaller one has
  the smaller rank. For the single key of the byte 0xFF, the bytes 0 and 0xFF both have
  frequency 1 and every other byte has frequency 0. The table that \<^verbatim>\<open>build_table\<close> leaves has
  rank 0 for the byte 0xFF and rank 1 for the byte 0: these are the two ranks that the
  \<^verbatim>\<open>std::sort\<close> of the GNU C++ library (an introsort, whose partition exchanges elements of
  equal frequency) leaves on this input, and the two ranks that \<open>reversing_sort\<close> computes,
  which stands for \<^verbatim>\<open>std::sort\<close> here. So the byte 0 does not have the smaller rank, although
  it is the smaller byte.
\<close>

lemma key_freq_recs_ff: "key_freq recs_ff c = (if c = 0xFF \<or> c = 0 then 1 else 0)"
  by (simp add: key_freq_def recs_ff_def c_str_def)

lemma table_reversing_ff: "build_table reversing_sort (\<lambda>i. i) recs_ff 0xFF = 0"
  by code_simp

lemma table_reversing_ff0: "build_table reversing_sort (\<lambda>i. i) recs_ff 0 = 1"
  by code_simp

theorem build_table_ties_counterexample:
  "std_sort_spec reversing_sort
   \<and> key_freq recs_ff 0 = key_freq recs_ff 0xFF
   \<and> (0 :: byte) < 0xFF
   \<and> build_table reversing_sort (\<lambda>i. i) recs_ff 0xFF = 0
   \<and> build_table reversing_sort (\<lambda>i. i) recs_ff 0 = 1
   \<and> \<not> build_table reversing_sort (\<lambda>i. i) recs_ff 0 < build_table reversing_sort (\<lambda>i. i) recs_ff 0xFF"
  by (simp add: std_sort_spec_reversing_sort key_freq_recs_ff table_reversing_ff table_reversing_ff0)


section \<open>Reading a trie from a stream\<close>

lemma chunk_names [simp]:
  "chunk_name ''SDAT'' = [0x53, 0x44, 0x41, 0x54]"
  "chunk_name ''TBLU'' = [0x54, 0x42, 0x4C, 0x55]"
  "chunk_name ''TAIL'' = [0x54, 0x41, 0x49, 0x4C]"
  "chunk_id doublearray5_traits = [0x53, 0x44, 0x41, 0x35]"
  "chunk_id doublearray4_traits = [0x53, 0x44, 0x41, 0x34]"
  by (simp_all add: chunk_name_def doublearray5_traits_def doublearray4_traits_def)

lemma int32_small [simp]: "int32_of_bytes [a, 0, 0, 0] = ucast a"
  by (simp add: int32_of_bytes_def le32_def char_at_def)

lemma read_short_header:
  assumes "stream_good s" "length (is_data s) < is_pos s + CHUNKSIZE"
  shows "\<exists>s'. trie_read T fuel tr s = Inr (0, tr, s') \<and> is_data s' = is_data s"
  using assms
  by (simp add: trie_read_def is_read_def stream_good_def is_seekg_def Let_def)

lemma read_header_ok:
  assumes "stream_good s" "is_pos s + CHUNKSIZE \<le> length (is_data s)"
  shows "is_read s CHUNKSIZE = (stream_header s, s\<lparr> is_pos := is_pos s + CHUNKSIZE \<rparr>)"
    and "read_chunk (stream_header s) 0
           = Inr (take 4 (stream_header s), int32_of_bytes (take 4 (drop 4 (stream_header s))))"
  using assms
  by (simp_all add: is_read_def stream_good_def stream_header_def read_chunk_def read_data_def
      read_uint32_def CHUNKSIZE_def)

lemma seekg_back:
  assumes "stream_good s"
  shows "is_seekg (s\<lparr> is_pos := n \<rparr>) (is_tellg s) = s"
  using assms by (simp add: is_seekg_def is_tellg_def stream_good_def)

lemma read_wrong_magic:
  assumes g: "stream_good s" and h: "is_pos s + CHUNKSIZE \<le> length (is_data s)"
    and m: "take 4 (stream_header s) \<noteq> chunk_name ''SDAT''"
  shows "trie_read T fuel tr s = Inr (0, tr, s)"
  using m seekg_back[OF g]
  by (simp add: trie_read_def read_header_ok[OF g h] Let_def)

lemma read_truncated:
  assumes g: "stream_good s" and h: "is_pos s + CHUNKSIZE \<le> length (is_data s)"
    and m: "take 4 (stream_header s) = chunk_name ''SDAT''"
    and t: "CHUNKSIZE \<le> declared_size s" "length (is_data s) < is_pos s + declared_size s"
  shows "\<exists>block s'. trie_read T fuel tr s = Inr (0, tr\<lparr> m_block := Some block \<rparr>, s')
           \<and> is_data s' = is_data s"
proof -
  let ?s1 = "s\<lparr> is_pos := is_pos s + CHUNKSIZE \<rparr>"
  have r2: "is_read ?s1 (declared_size s - CHUNKSIZE)
              = (drop (is_pos s + CHUNKSIZE) (is_data s),
                 s\<lparr> is_pos := length (is_data s), is_failbit := True, is_eofbit := True \<rparr>)"
    using t g by (simp add: is_read_def stream_good_def)
  show ?thesis
    using m t g
    by (auto simp add: trie_read_def read_header_ok[OF g h] Let_def declared_size_def[symmetric]
        r2 is_seekg_def stream_good_def simp del: chunk_names)
qed

lemma read_assign_fails:
  assumes g: "stream_good s" and h: "is_pos s + CHUNKSIZE \<le> length (is_data s)"
    and m: "take 4 (stream_header s) = chunk_name ''SDAT''"
    and t: "CHUNKSIZE \<le> declared_size s" "is_pos s + declared_size s \<le> length (is_data s)"
    and a: "assign_block T fuel (tr\<lparr> m_block := Some (stream_block s) \<rparr>) (stream_block s)
              (declared_size s) = Inr (used, tr2)"
    and u: "used \<noteq> declared_size s"
  shows "trie_read T fuel tr s = Inr (0, tr2, s)"
proof -
  define ts where "ts = int32_of_bytes (take 4 (drop 4 (stream_header s)))"
  have d: "declared_size s = unat ts" by (simp add: declared_size_def ts_def)
  let ?s1 = "s\<lparr> is_pos := is_pos s + CHUNKSIZE \<rparr>"
  let ?body = "take (unat ts - CHUNKSIZE) (drop (is_pos s + CHUNKSIZE) (is_data s))"
  have r1: "is_read s CHUNKSIZE = (stream_header s, ?s1)"
    by (rule read_header_ok(1)[OF g h])
  have rc: "read_chunk (stream_header s) 0 = Inr (chunk_name ''SDAT'', ts)"
    using read_header_ok(2)[OF g h] m by (simp add: ts_def del: chunk_names)
  have r2: "is_read ?s1 (unat ts - CHUNKSIZE) = (?body, s\<lparr> is_pos := is_pos s + unat ts \<rparr>)"
    using t g by (simp add: is_read_def stream_good_def d)
  have len: "length ?body = unat ts - CHUNKSIZE"
    using t by (simp add: d)
  have "take (unat ts) (drop (is_pos s) (is_data s))
           = take CHUNKSIZE (drop (is_pos s) (is_data s))
             @ take (unat ts - CHUNKSIZE) (drop CHUNKSIZE (drop (is_pos s) (is_data s)))"
    using t(1) by (metis d le_add_diff_inverse take_add)
  then have blk: "stream_header s @ ?body = stream_block s"
    by (simp add: stream_block_def stream_header_def add.commute d)
  have nf: "\<not> is_failbit (s\<lparr> is_pos := is_pos s + unat ts \<rparr>)" "\<not> is_failbit ?s1"
    using g by (simp_all add: stream_good_def)
  have a': "assign_block T fuel (tr\<lparr> m_block := Some (stream_block s) \<rparr>) (stream_block s)
              (unat ts) = Inr (used, tr2)"
    using a by (simp add: d)
  have u': "used \<noteq> unat ts" "\<not> unat ts < CHUNKSIZE"
    using u t by (simp_all add: d)
  show ?thesis
    unfolding trie_read_def Let_def r1 prod.case
    by (simp only: nf rc r2 len blk a' u' seekg_back[OF g] if_False if_True sum.case prod.case
        simp_thms diff_self_eq_0 replicate_0 append_Nil2 split: )
qed

text \<open>
  C7, as the code has it. On a stream on which nothing has failed, a \<^verbatim>\<open>read\<close> that fails
  returns 0 in each of the four cases:
  \<^item> fewer than eight bytes are left: the trie is as it was;
  \<^item> the magic is not \<^verbatim>\<open>SDAT\<close>: the trie is as it was and the stream is as it was, its position
    restored;
  \<^item> the body is shorter than the declared total size: of the trie, \<^verbatim>\<open>m_block\<close> alone is changed;
  \<^item> \<^verbatim>\<open>assign\<close> does not return the declared total size: the stream is as it was, its position
    restored, and the trie is the one \<^verbatim>\<open>assign\<close> left.
  (Nothing is said of the position of a stream on which a read has failed.)
\<close>

theorem trie_read_failure:
  assumes "stream_good s"
  shows "(length (is_data s) < is_pos s + CHUNKSIZE
            \<longrightarrow> (\<exists>s'. trie_read T fuel tr s = Inr (0, tr, s') \<and> is_data s' = is_data s))
       \<and> (is_pos s + CHUNKSIZE \<le> length (is_data s)
            \<and> take 4 (stream_header s) \<noteq> chunk_name ''SDAT''
            \<longrightarrow> trie_read T fuel tr s = Inr (0, tr, s))
       \<and> (is_pos s + CHUNKSIZE \<le> length (is_data s)
            \<and> take 4 (stream_header s) = chunk_name ''SDAT''
            \<and> CHUNKSIZE \<le> declared_size s
            \<and> length (is_data s) < is_pos s + declared_size s
            \<longrightarrow> (\<exists>block s'. trie_read T fuel tr s = Inr (0, tr\<lparr> m_block := Some block \<rparr>, s')
                    \<and> is_data s' = is_data s))
       \<and> (is_pos s + CHUNKSIZE \<le> length (is_data s)
            \<and> take 4 (stream_header s) = chunk_name ''SDAT''
            \<and> CHUNKSIZE \<le> declared_size s
            \<and> is_pos s + declared_size s \<le> length (is_data s)
            \<and> assign_block T fuel (tr\<lparr> m_block := Some (stream_block s) \<rparr>) (stream_block s)
                 (declared_size s) = Inr (used, tr2)
            \<and> used \<noteq> declared_size s
            \<longrightarrow> trie_read T fuel tr s = Inr (0, tr2, s))"
  using read_short_header[OF assms] read_wrong_magic[OF assms] read_truncated[OF assms]
    read_assign_fails[OF assms]
  by blast


lemma assign_no_tail:
  "assign_block doublearray5_traits (Suc (Suc 0)) ((trie_init 77)\<lparr> m_block := Some image_no_tail \<rparr>)
     image_no_tail 24
   = Inr (0, (trie_init 77)\<lparr> m_block := Some image_no_tail, m_n := 5,
                               m_da := array_assign [] 0 False \<rparr>)"
  by (simp add: image_no_tail_def read_chunk_def read_data_def read_uint32_def
      assign_block_def SDAT_CHUNKSIZE_def CHUNKSIZE_def NUMCHARS_def elements_at_def
      array_allocated_def array_assign_def trie_init_def itail_init_def array_empty_def)

lemma no_tail_facts:
  "stream_good (stream_of image_no_tail)"
  "stream_header (stream_of image_no_tail) = [0x53, 0x44, 0x41, 0x54, 24, 0, 0, 0]"
  "declared_size (stream_of image_no_tail) = 24"
  "stream_block (stream_of image_no_tail) = image_no_tail"
  "length (is_data (stream_of image_no_tail)) = 24"
  "is_pos (stream_of image_no_tail) = 0"
  by (simp_all add: stream_good_def stream_of_def stream_header_def declared_size_def
      stream_block_def image_no_tail_def CHUNKSIZE_def)

text \<open>
  C7, as the claim states it, has the trie uninitialised after every failed \<^verbatim>\<open>read\<close>. The image
  \<open>image_no_tail\<close> has no TAIL chunk: \<^verbatim>\<open>assign\<close> stores the record count 5 and the double array
  before it finds the tail missing and returns 0. \<^verbatim>\<open>read\<close> returns 0, and the trie has the
  record count 5 (it was 77), an allocated double array and a memory block.
\<close>

theorem trie_read_populates_counterexample:
  "trie_read doublearray5_traits (Suc (Suc 0)) (trie_init 77) (stream_of image_no_tail)
     = Inr (0, (trie_init 77)\<lparr> m_block := Some image_no_tail, m_n := 5,
                                m_da := array_assign [] 0 False \<rparr>, stream_of image_no_tail)
   \<and> m_n (trie_init 77 :: element5 trie) = 77
   \<and> m_n ((trie_init 77 :: element5 trie)\<lparr> m_block := Some image_no_tail, m_n := 5,
                                m_da := array_assign [] 0 False \<rparr>) = 5
   \<and> \<not> array_allocated (m_da (trie_init 77 :: element5 trie))
   \<and> array_allocated (m_da ((trie_init 77 :: element5 trie)\<lparr> m_block := Some image_no_tail,
                                m_n := 5, m_da := array_assign [] 0 False \<rparr>))"
proof -
  have "trie_read doublearray5_traits (Suc (Suc 0)) (trie_init 77) (stream_of image_no_tail)
     = Inr (0, (trie_init 77)\<lparr> m_block := Some image_no_tail, m_n := 5,
                                m_da := array_assign [] 0 False \<rparr>, stream_of image_no_tail)"
    by (rule read_assign_fails[where used=0])
       (simp_all add: no_tail_facts assign_no_tail CHUNKSIZE_def)
  then show ?thesis
    by (simp add: trie_init_def array_allocated_def array_assign_def array_empty_def)
qed

theorem trie_read_failure_witness:
  "stream_good (stream_of [1, 2, 3])
   \<and> length (is_data (stream_of [1, 2, 3])) < is_pos (stream_of [1, 2, 3]) + CHUNKSIZE
   \<and> (\<exists>s'. trie_read doublearray5_traits (Suc (Suc 0)) (trie_init 77) (stream_of [1, 2, 3])
               = Inr (0, trie_init 77, s'))
   \<and> stream_good (stream_of ([0x58, 0x44, 0x41, 0x54, 24, 0, 0, 0]))
   \<and> take 4 (stream_header (stream_of ([0x58, 0x44, 0x41, 0x54, 24, 0, 0, 0]))) \<noteq> chunk_name ''SDAT''
   \<and> trie_read doublearray5_traits (Suc (Suc 0)) (trie_init 77) (stream_of ([0x58, 0x44, 0x41, 0x54, 24, 0, 0, 0]))
        = Inr (0, trie_init 77, stream_of ([0x58, 0x44, 0x41, 0x54, 24, 0, 0, 0]))
   \<and> stream_good (stream_of (take 20 image_no_tail))
   \<and> length (is_data (stream_of (take 20 image_no_tail)))
        < is_pos (stream_of (take 20 image_no_tail)) + declared_size (stream_of (take 20 image_no_tail))
   \<and> (\<exists>block s'. trie_read doublearray5_traits (Suc (Suc 0)) (trie_init 77)
                      (stream_of (take 20 image_no_tail))
               = Inr (0, (trie_init 77)\<lparr> m_block := Some block \<rparr>, s'))
   \<and> stream_good (stream_of image_no_tail)
   \<and> is_pos (stream_of image_no_tail) + declared_size (stream_of image_no_tail)
        \<le> length (is_data (stream_of image_no_tail))
   \<and> trie_read doublearray5_traits (Suc (Suc 0)) (trie_init 77) (stream_of image_no_tail)
        = Inr (0, (trie_init 77)\<lparr> m_block := Some image_no_tail, m_n := 5,
                                   m_da := array_assign [] 0 False \<rparr>, stream_of image_no_tail)"
proof -
  have g1: "stream_good (stream_of [1, 2, 3])"
    and g2: "stream_good (stream_of ([0x58, 0x44, 0x41, 0x54, 24, 0, 0, 0]))"
    and g3: "stream_good (stream_of (take 20 image_no_tail))"
    by (simp_all add: stream_good_def stream_of_def image_no_tail_def)
  have h1: "length (is_data (stream_of [1, 2, 3])) < is_pos (stream_of [1, 2, 3]) + CHUNKSIZE"
    by (simp add: stream_of_def CHUNKSIZE_def)
  have h2: "is_pos (stream_of ([0x58, 0x44, 0x41, 0x54, 24, 0, 0, 0])) + CHUNKSIZE \<le> length (is_data (stream_of ([0x58, 0x44, 0x41, 0x54, 24, 0, 0, 0])))"
       "take 4 (stream_header (stream_of ([0x58, 0x44, 0x41, 0x54, 24, 0, 0, 0]))) \<noteq> chunk_name ''SDAT''"
    by (simp_all add: stream_of_def CHUNKSIZE_def stream_header_def)
  have h3: "is_pos (stream_of (take 20 image_no_tail)) + CHUNKSIZE
              \<le> length (is_data (stream_of (take 20 image_no_tail)))"
       "take 4 (stream_header (stream_of (take 20 image_no_tail))) = chunk_name ''SDAT''"
       "CHUNKSIZE \<le> declared_size (stream_of (take 20 image_no_tail))"
       "length (is_data (stream_of (take 20 image_no_tail)))
          < is_pos (stream_of (take 20 image_no_tail)) + declared_size (stream_of (take 20 image_no_tail))"
    by (simp_all add: stream_of_def CHUNKSIZE_def stream_header_def declared_size_def image_no_tail_def)
  have h4: "is_pos (stream_of image_no_tail) + CHUNKSIZE \<le> length (is_data (stream_of image_no_tail))"
       "take 4 (stream_header (stream_of image_no_tail)) = chunk_name ''SDAT''"
       "CHUNKSIZE \<le> declared_size (stream_of image_no_tail)"
       "is_pos (stream_of image_no_tail) + declared_size (stream_of image_no_tail)
          \<le> length (is_data (stream_of image_no_tail))"
       "assign_block doublearray5_traits (Suc (Suc 0))
          ((trie_init 77)\<lparr> m_block := Some (stream_block (stream_of image_no_tail)) \<rparr>)
          (stream_block (stream_of image_no_tail)) (declared_size (stream_of image_no_tail))
        = Inr (0, (trie_init 77)\<lparr> m_block := Some image_no_tail, m_n := 5,
                                    m_da := array_assign [] 0 False \<rparr>)"
       "0 \<noteq> declared_size (stream_of image_no_tail)"
    by (simp_all add: no_tail_facts assign_no_tail CHUNKSIZE_def)
  have p1: "\<exists>s'. trie_read doublearray5_traits (Suc (Suc 0)) (trie_init 77) (stream_of [1, 2, 3])
               = Inr (0, trie_init 77, s')"
    using trie_read_failure [OF g1, of doublearray5_traits "Suc (Suc 0)" "trie_init 77",
        THEN conjunct1, THEN mp, OF h1]
    by blast
  have p2: "trie_read doublearray5_traits (Suc (Suc 0)) (trie_init 77)
              (stream_of [0x58, 0x44, 0x41, 0x54, 24, 0, 0, 0])
            = Inr (0, trie_init 77, stream_of [0x58, 0x44, 0x41, 0x54, 24, 0, 0, 0])"
    by (rule trie_read_failure [OF g2, THEN conjunct2, THEN conjunct1, THEN mp])
       (intro conjI h2)
  have p3: "\<exists>block s'. trie_read doublearray5_traits (Suc (Suc 0)) (trie_init 77)
                      (stream_of (take 20 image_no_tail))
               = Inr (0, (trie_init 77)\<lparr> m_block := Some block \<rparr>, s')"
    using trie_read_failure [OF g3, of doublearray5_traits "Suc (Suc 0)" "trie_init 77",
        THEN conjunct2, THEN conjunct2, THEN conjunct1, THEN mp, OF conjI[OF h3(1) conjI[OF h3(2) conjI[OF h3(3) h3(4)]]]]
    by blast
  have p4: "trie_read doublearray5_traits (Suc (Suc 0)) (trie_init 77) (stream_of image_no_tail)
        = Inr (0, (trie_init 77)\<lparr> m_block := Some image_no_tail, m_n := 5,
                                   m_da := array_assign [] 0 False \<rparr>, stream_of image_no_tail)"
    by (rule trie_read_failure [OF no_tail_facts(1), where used=0, THEN conjunct2, THEN conjunct2,
          THEN conjunct2, THEN mp])
       (intro conjI h4)
  show ?thesis
    by (intro conjI g1 g2 g3 no_tail_facts(1) h1 h2(2) h3(4) h4(4) p1 p2 p3 p4)
qed

section \<open>Building a trie: runs on concrete records\<close>

text \<open>The recursion equations of the builder are applied one phase at a time: scanning the
  children, finding a base, reserving the children, placing them.\<close>

lemma list_update_numeral [simp]:
  "(x # xs)[numeral n := y] = x # xs[pred_numeral n := y]"
  by (simp add: numeral_eq_Suc)

lemma replicate_numeral' [simp]:
  "replicate (numeral k) x = x # replicate (pred_numeral k) x"
  by (simp add: numeral_eq_Suc)

lemma vlist_expand_loop_numeral [simp]:
  "vlist_expand_loop el back i (numeral k) =
     vlist_expand_loop (el[i := \<lparr> dl_prev = back, dl_next = i + 1 \<rparr>]) i (i + 1) (pred_numeral k)"
  by (simp add: numeral_eq_Suc)

lemma word_of_unat: "unat (x :: 'a::len word) = n \<Longrightarrow> x = of_nat n"
  by auto

lemma arrange_leaf:
  "arrange T V (Suc fuel) p [r] b =
     (if unat (max_base T) < length (b_tail b) then Inl NoSpaceForLeaves
      else Inr (- of_nat (length (b_tail b)), write_leaf V p r b))"
  by (simp add: Let_def)

lemma arrange_node:
  "length recs \<noteq> 1 \<Longrightarrow> arrange T V (Suc fuel) p recs b =
        (case scan_children (b_table b) p (- 1) [] 0 recs of
           Inl e \<Rightarrow> Inl e
         | Inr (children, max_offset) \<Rightarrow>
             if children = [] then Inl UndefinedBehaviour
             else
               (case find_base T fuel children max_offset 0 b of
                  Inl e \<Rightarrow> Inl e
                | Inr (base, b1) \<Rightarrow>
                    if unat (max_base T) \<le> base + max_offset then Inl NoSpaceForChildren
                    else
                      (case reserve_children T base children (register_base b1 base) of
                         Inl e \<Rightarrow> Inl e
                       | Inr b2 \<Rightarrow>
                           (case set_children
                                   (\<lambda>child b.
                                      if c_c child \<noteq> 0
                                      then arrange T V fuel (p + 1) (c_records child) b
                                      else if length (c_records child) \<noteq> 1
                                      then Inl DuplicatedKeys
                                      else arrange T V fuel p (c_records child) b)
                                   T base children b2 of
                              Inl e \<Rightarrow> Inl e
                            | Inr b3 \<Rightarrow> Inr (of_nat base, add_node b3)))))"
  by simp

declare arrange.simps [simp del] find_base.simps [simp del] reserve_children.simps [simp del]
  set_children.simps [simp del] scan_children.simps [simp del]

lemmas ph_scan = scan_children.simps char_at_def Let_def
lemmas ph_find = find_base.simps add_base_trial_def vlist_next_def INITIAL_INDEX_def Let_def
  da_expand_def vlist_expand_def elink_resize_def da_in_use_def builder_get_base_def
lemmas ph_reserve = reserve_children.simps register_base_def builder_set_base_def vlist_use_def
  Let_def elink_resize_def
lemmas ph_leaf = set_children.simps arrange_leaf write_leaf_def builder_set_base_def
  builder_set_check_def c_str_def add_node_def

lemmas trie_eval =
  trie_of_builder_def assign_builder_def trie_init_def descend_def
  trie_get_base_def trie_get_check_def array_at_def array_assign_def itail_assign_def
  itail_init_def INITIAL_INDEX_def INVALID_INDEX_def char_at_def size_of_neg_def seekg_def
  match_string_def c_strlen_def c_str_def tail_memcmp_eq_def itail_strlen_def mem_strlen_def
  array_empty_def

lemma build_prelude:
  "build doublearray5_traits V srt fuel builder_init recs =
     (case arrange doublearray5_traits V fuel 0 recs
             (b_start (length recs) (build_table srt (\<lambda>i. i) recs)) of
        Inl e \<Rightarrow> Inl e
      | Inr (v, b6) \<Rightarrow>
          (case builder_set_base doublearray5_traits b6 INITIAL_INDEX v of
             Inl e \<Rightarrow> Inl e
           | Inr b7 \<Rightarrow> Inr (compute_stat doublearray5_traits b7)))"
  by (simp add: build_def clear_def da_expand_def vlist_init_def vlist_expand_def
      elink_resize_def builder_set_base_def vlist_use_def INITIAL_INDEX_def SIZEOF_INT_def
      builder_init_def Let_def d5_def[symmetric] b_start_def numeral_eq_Suc)

subsection \<open>The keys \<open>aa\<close> and \<open>ab\<close> without values\<close>

lemma key_freq_aa_ab:
  "key_freq recs_aa_ab c = (if c = 0x61 then 3 else if c = 0 then 2 else if c = 0x62 then 1 else 0)"
  by (simp add: key_freq_def recs_aa_ab_def c_str_def)

lemma table_aa_ab:
  assumes "std_sort_spec srt"
  shows "build_table srt t0 recs_aa_ab 0x61 = 0"
    and "build_table srt t0 recs_aa_ab 0 = 1"
    and "build_table srt t0 recs_aa_ab 0x62 = 2"
proof -
  have s1: "{d. key_freq recs_aa_ab 0x61 < key_freq recs_aa_ab d} = {}"
    by (auto simp: key_freq_aa_ab)
  have s2: "{d. key_freq recs_aa_ab 0 < key_freq recs_aa_ab d} = {0x61}"
    by (auto simp: key_freq_aa_ab split: if_splits)
  have s3: "{d. key_freq recs_aa_ab 0x62 < key_freq recs_aa_ab d} = {0x61, 0}"
    by (auto simp: key_freq_aa_ab split: if_splits)
  have "unat (build_table srt t0 recs_aa_ab 0x61) = card {d. key_freq recs_aa_ab 0x61 < key_freq recs_aa_ab d}"
    by (rule build_table_rank[OF assms]) (auto simp: key_freq_aa_ab)
  then have "unat (build_table srt t0 recs_aa_ab 0x61) = 0"
    unfolding s1 by simp
  then show "build_table srt t0 recs_aa_ab 0x61 = 0"
    by (auto dest: word_of_unat)
  have "unat (build_table srt t0 recs_aa_ab 0) = card {d. key_freq recs_aa_ab 0 < key_freq recs_aa_ab d}"
    by (rule build_table_rank[OF assms]) (auto simp: key_freq_aa_ab)
  then have "unat (build_table srt t0 recs_aa_ab 0) = 1"
    unfolding s2 by simp
  then show "build_table srt t0 recs_aa_ab 0 = 1"
    by (auto dest: word_of_unat)
  have "unat (build_table srt t0 recs_aa_ab 0x62) = card {d. key_freq recs_aa_ab 0x62 < key_freq recs_aa_ab d}"
    by (rule build_table_rank[OF assms]) (auto simp: key_freq_aa_ab)
  then have "unat (build_table srt t0 recs_aa_ab 0x62) = 2"
    unfolding s3 by simp
  then show "build_table srt t0 recs_aa_ab 0x62 = 2"
    by (auto dest: word_of_unat)
qed

lemma arrange_aa_ab:
  assumes t: "tbl 0x61 = 0" "tbl 0 = 1" "tbl 0x62 = 2"
  shows "\<exists>ub el st. arrange doublearray5_traits empty_type (Suc (Suc (Suc 0))) 0 recs_aa_ab (b_start 2 tbl)
     = Inr (1, \<lparr> b_i = 0, b_n = 2,
           b_da = [d5, set_base5 d5 1, set_check5 (set_base5 (set_base5 d5 1) 2) 0,
                   set_check5 (set_base5 (set_base5 d5 1) (- 4)) 0, d5,
                   set_check5 (set_base5 (set_base5 d5 1) (- 5)) 2],
           b_tail = [0, 0, 0, 0, 0, 0], b_table = tbl, b_used_bases = ub, b_elink = el, b_stat = st \<rparr>)"
  apply (simp add: recs_aa_ab_def arrange_node b_start_def)
  apply (simp add: t ph_scan)
  apply (simp add: ph_find d5_def[symmetric])
  apply (simp add: ph_reserve)
  apply (simp add: set_children.simps)
  apply (simp add: arrange_node)
  apply (simp add: t ph_scan)
  apply (simp add: ph_find d5_def[symmetric])
  apply (simp add: ph_reserve)
  apply (simp add: ph_leaf empty_type_def)
  done

lemma build_aa_ab:
  assumes "std_sort_spec srt"
  shows "\<exists>b. build doublearray5_traits empty_type srt (Suc (Suc (Suc 0))) builder_init recs_aa_ab = Inr b
           \<and> b_da b = [d5, set_base5 (set_base5 d5 1) 1, set_check5 (set_base5 (set_base5 d5 1) 2) 0,
                   set_check5 (set_base5 (set_base5 d5 1) (- 4)) 0, d5,
                   set_check5 (set_base5 (set_base5 d5 1) (- 5)) 2]
           \<and> b_tail b = [0, 0, 0, 0, 0, 0]
           \<and> b_table b = build_table srt (\<lambda>i. i) recs_aa_ab"
proof -
  have len: "length recs_aa_ab = 2" by (simp add: recs_aa_ab_def)
  from arrange_aa_ab[OF table_aa_ab[OF assms, of "\<lambda>i. i"]]
  obtain ub el st where
    a: "arrange doublearray5_traits empty_type (Suc (Suc (Suc 0))) 0 recs_aa_ab
          (b_start 2 (build_table srt (\<lambda>i. i) recs_aa_ab))
        = Inr (1, \<lparr> b_i = 0, b_n = 2,
           b_da = [d5, set_base5 d5 1, set_check5 (set_base5 (set_base5 d5 1) 2) 0,
                   set_check5 (set_base5 (set_base5 d5 1) (- 4)) 0, d5,
                   set_check5 (set_base5 (set_base5 d5 1) (- 5)) 2],
           b_tail = [0, 0, 0, 0, 0, 0], b_table = build_table srt (\<lambda>i. i) recs_aa_ab,
           b_used_bases = ub, b_elink = el, b_stat = st \<rparr>)"
    by blast
  show ?thesis
    by (simp add: build_prelude len a builder_set_base_def INITIAL_INDEX_def compute_stat_def)
qed

lemma find_aa_ab:
  assumes "std_sort_spec srt"
    and "build doublearray5_traits empty_type srt (Suc (Suc (Suc 0))) builder_init recs_aa_ab = Inr b"
  shows "find doublearray5_traits empty_type (trie_of_builder b) [0x61, 0x62]
           = Inr (False, None, (trie_of_builder b)\<lparr> m_tail := (m_tail (trie_of_builder b))\<lparr> t_offset := 5 \<rparr> \<rparr>)"
    and "find doublearray5_traits empty_type (trie_of_builder b) [0x61, 0x61]
           = Inr (True, None, (trie_of_builder b)\<lparr> m_tail := (m_tail (trie_of_builder b))\<lparr> t_offset := 5 \<rparr> \<rparr>)"
proof -
  from build_aa_ab[OF assms(1)] assms(2)
  have b: "b_da b = [d5, set_base5 (set_base5 d5 1) 1, set_check5 (set_base5 (set_base5 d5 1) 2) 0,
                   set_check5 (set_base5 (set_base5 d5 1) (- 4)) 0, d5,
                   set_check5 (set_base5 (set_base5 d5 1) (- 5)) 2]"
     "b_tail b = [0, 0, 0, 0, 0, 0]"
     "b_table b = build_table srt (\<lambda>i. i) recs_aa_ab"
    by auto
  note t = table_aa_ab[OF assms(1), of "\<lambda>i. i"]
  show "find doublearray5_traits empty_type (trie_of_builder b) [0x61, 0x62]
           = Inr (False, None, (trie_of_builder b)\<lparr> m_tail := (m_tail (trie_of_builder b))\<lparr> t_offset := 5 \<rparr> \<rparr>)"
    by (simp add: find_def locate_def trie_eval b t empty_type_def)
  show "find doublearray5_traits empty_type (trie_of_builder b) [0x61, 0x61]
           = Inr (True, None, (trie_of_builder b)\<lparr> m_tail := (m_tail (trie_of_builder b))\<lparr> t_offset := 5 \<rparr> \<rparr>)"
    by (simp add: find_def locate_def trie_eval b t empty_type_def)
qed

text \<open>Claim C1 (round-trip exact match: after \<^verbatim>\<open>build\<close> and the transfer to a trie,
  \<^verbatim>\<open>find(r.key)\<close> returns true for every record, also with the empty value codec) does not
  hold of the code. The records with the keys \<open>aa\<close> and \<open>ab\<close> are in strictly ascending order;
  with \<^verbatim>\<open>empty_type\<close> values the build succeeds (a stable sort standing for \<^verbatim>\<open>std::sort\<close>),
  \<^verbatim>\<open>find("aa")\<close> returns true and \<^verbatim>\<open>find("ab")\<close> returns false: the leaf of \<open>ab\<close> is the last one
  written, the terminator of its empty postfix is the last byte of the tail, and
  \<^verbatim>\<open>match_string\<close> refuses a string that ends at the end of the tail.\<close>

theorem find_last_key_empty_codec:
  "\<exists>b. build doublearray5_traits empty_type stable_sort (Suc (Suc (Suc 0))) builder_init recs_aa_ab = Inr b
        \<and> (\<exists>tr. find doublearray5_traits empty_type (trie_of_builder b) [0x61, 0x61] = Inr (True, None, tr))
        \<and> (\<exists>tr. find doublearray5_traits empty_type (trie_of_builder b) [0x61, 0x62] = Inr (False, None, tr))"
proof -
  from build_aa_ab[OF std_sort_spec_stable_sort] obtain b where
    b: "build doublearray5_traits empty_type stable_sort (Suc (Suc (Suc 0))) builder_init recs_aa_ab = Inr b"
    by blast
  show ?thesis
    using b find_aa_ab[OF std_sort_spec_stable_sort b] by blast
qed

subsection \<open>A single record\<close>

lemma build_single:
  "\<exists>b. build doublearray5_traits V srt (Suc fuel) builder_init [r] = Inr b
      \<and> b_da b = [d5, set_base5 (set_base5 d5 1) (- 4)]"
  by (simp add: build_prelude arrange_leaf b_start_def builder_set_base_def INITIAL_INDEX_def
      write_leaf_def compute_stat_def)

text \<open>Claim C2 (prefix correctness: the prefix cursor's \<^verbatim>\<open>next()\<close> returns true once for each
  record whose key is a prefix of the query) does not hold of the code. For a list of one
  record, with any key, any value codec and any value, \<^verbatim>\<open>build\<close> succeeds and makes the root a
  leaf (\<^verbatim>\<open>arrange\<close> returns the negated tail offset for a range of one record, and \<^verbatim>\<open>build\<close>
  stores it as the base of the root); on the trie built, the first \<^verbatim>\<open>next()\<close> of the cursor
  of every query returns false, the record's own key included, and \<^verbatim>\<open>find\<close> of the record's
  key returns false as well.\<close>

theorem single_record_prefix_cursor:
  "\<exists>b. build doublearray5_traits V srt (Suc fuel) builder_init [\<lparr> rec_key = key, rec_value = v \<rparr>] = Inr b
      \<and> (\<exists>pfx tr. cursor_next doublearray5_traits V (trie_of_builder b) (prefix q) = Inr (False, pfx, tr))
      \<and> (\<exists>tr. find doublearray5_traits V (trie_of_builder b) key = Inr (False, None, tr))"
proof -
  from build_single obtain b where
    b: "build doublearray5_traits V srt (Suc fuel) builder_init [\<lparr> rec_key = key, rec_value = v \<rparr>] = Inr b"
    and da: "b_da b = [d5, set_base5 (set_base5 d5 1) (- 4)]"
    by blast
  have d: "descend doublearray5_traits (trie_of_builder b) INITIAL_INDEX c = Inr INVALID_INDEX" for c
    by (simp add: descend_def trie_get_base_def array_at_def trie_of_builder_def assign_builder_def
        array_assign_def da INITIAL_INDEX_def)
  have "\<exists>pfx tr. cursor_next doublearray5_traits V (trie_of_builder b) (prefix q) = Inr (False, pfx, tr)"
    by (subst cursor_next_def, subst next_prefix_def, subst next_prefix_loop.simps)
       (simp add: prefix_def d Let_def)
  moreover have "\<exists>tr. find doublearray5_traits V (trie_of_builder b) key = Inr (False, None, tr)"
    by (subst find_def, subst locate_def, subst locate_loop.simps) (simp add: d)
  ultimately show ?thesis using b by blast
qed

subsection \<open>Records that are unsorted and hold a key twice\<close>






section \<open>What the builder accepts and what it rejects\<close>

subsection \<open>A build that succeeds had its records in strictly ascending order\<close>

















subsection \<open>The list of vacant elements\<close>

lemma vlist_expand_loop_length [simp]:
  "length (vlist_expand_loop el bk i k) = length el"
  by (induction k arbitrary: el bk i) simp_all







lemma vlist_expand_fields [simp]:
  "b_da (vlist_expand b n) = b_da b" "b_tail (vlist_expand b n) = b_tail b"
  "b_table (vlist_expand b n) = b_table b" "b_used_bases (vlist_expand b n) = b_used_bases b"
  by (simp_all add: vlist_expand_def Let_def)

lemma da_expand_fields [simp]:
  "b_elink (da_expand T b n) = b_elink b" "b_tail (da_expand T b n) = b_tail b"
  "b_table (da_expand T b n) = b_table b" "b_used_bases (da_expand T b n) = b_used_bases b"
  by (simp_all add: da_expand_def)



lemma vlist_expand_in_use [simp]: "da_in_use T (vlist_expand b n) i = da_in_use T b i"
  by (simp add: da_in_use_def builder_get_base_def)

lemma add_base_trial_fields [simp]:
  "b_elink (add_base_trial b) = b_elink b" "b_tail (add_base_trial b) = b_tail b"
  "b_table (add_base_trial b) = b_table b" "b_used_bases (add_base_trial b) = b_used_bases b"
  "b_da (add_base_trial b) = b_da b"
  by (simp_all add: add_base_trial_def)

lemma add_base_trial_in_use [simp]: "da_in_use T (add_base_trial b) i = da_in_use T b i"
  by (simp add: da_in_use_def builder_get_base_def)



subsection \<open>More fuel does not change a result\<close>

lemma find_base_Suc:
  "find_base T (Suc fuel) children mo idx b =
     (if vlist_next b idx < 1 + c_offset (hd children)
      then find_base T fuel children mo (vlist_next b idx) (add_base_trial b)
      else if vlist_next b idx - c_offset (hd children) < length (b_used_bases b)
              \<and> b_used_bases b ! (vlist_next b idx - c_offset (hd children))
      then find_base T fuel children mo (vlist_next b idx) (add_base_trial b)
      else if list_ex (\<lambda>ch. da_in_use T
                 (vlist_expand (da_expand T (add_base_trial b)
                    (vlist_next b idx - c_offset (hd children) + mo + 1))
                    (vlist_next b idx - c_offset (hd children) + mo + 1))
                 (vlist_next b idx - c_offset (hd children) + c_offset ch)) (tl children)
      then find_base T fuel children mo (vlist_next b idx)
             (vlist_expand (da_expand T (add_base_trial b)
                    (vlist_next b idx - c_offset (hd children) + mo + 1))
                    (vlist_next b idx - c_offset (hd children) + mo + 1))
      else Inr (vlist_next b idx - c_offset (hd children),
             vlist_expand (da_expand T (add_base_trial b)
                    (vlist_next b idx - c_offset (hd children) + mo + 1))
                    (vlist_next b idx - c_offset (hd children) + mo + 1)))"
proof -
  have n: "vlist_next (add_base_trial b) idx = vlist_next b idx"
    by (simp add: vlist_next_def add_base_trial_def)
  have u: "b_used_bases (add_base_trial b) = b_used_bases b"
    by (simp add: add_base_trial_def)
  show ?thesis
    unfolding find_base.simps Let_def n u INITIAL_INDEX_def by (rule refl)
qed




subsection \<open>Every search for a base ends, and nothing is written outside the arrays\<close>








lemma register_base_fields [simp]:
  "b_elink (register_base b base) = b_elink b" "b_da (register_base b base) = b_da b"
  by (simp_all add: register_base_def Let_def)





lemma write_leaf_fields [simp]:
  "b_elink (write_leaf V p r b) = b_elink b" "b_da (write_leaf V p r b) = b_da b"
  by (simp_all add: write_leaf_def)

lemma add_node_fields [simp]:
  "b_elink (add_node b) = b_elink b" "b_da (add_node b) = b_da b"
  by (simp_all add: add_node_def)



subsection \<open>\<^verbatim>\<open>build\<close> returns or throws\<close>







subsection \<open>The exception thrown tells what is wrong with the records\<close>

















subsection \<open>Records that descend, records with the same key\<close>





section \<open>Elements of 4 bytes and elements of 5 bytes\<close>

subsection \<open>The builder of 5-byte elements follows the builder of 4-byte elements\<close>

lemma traits4_sel [simp]:
  "get_base doublearray4_traits = get_base4" "get_check doublearray4_traits = get_check4"
  "set_base doublearray4_traits = set_base4" "set_check doublearray4_traits = set_check4"
  "default_value doublearray4_traits = 0" "max_base doublearray4_traits = 0x7FFFFF"
  by (simp_all add: doublearray4_traits_def)

lemma max_base5 [simp]: "max_base doublearray5_traits = 0x7FFFFFFF"
  by (simp add: doublearray5_traits_def)

lemma widen_base [simp]: "get_base5 (widen e) = get_base4 e"
  by (simp add: widen_def)

lemma widen_check [simp]: "get_check5 (widen e) = get_check4 e"
  by (simp add: widen_def)

lemma widen_set_check [simp]: "widen (set_check4 e k) = set_check5 (widen e) k"
  by (simp add: widen_def get_base4_set_check4 get_check4_set_check4 set_check5_def set_base5_def)

lemma widen_set_base:
  "base4_range v \<Longrightarrow> widen (set_base4 e v) = set_base5 (widen e) v"
proof -
  assume "base4_range v"
  then have "signed_take_bit 23 v = v"
    by (intro signed_take_bit_23_self) (simp_all add: base4_range_def)
  then show ?thesis
    by (simp add: widen_def get_base4_set_base4 get_check4_set_base4 set_check5_def set_base5_def)
qed

lemma widen_0 [simp]: "widen 0 = default_value doublearray5_traits"
  by (simp add: widen_def get_base4_def get_check4_def set_check5_def set_base5_def
      doublearray5_traits_def)

lemma base4_range_1 [simp]: "base4_range 1"
  by (simp add: base4_range_def)

lemma wb_fields [simp]:
  "b_i (widen_builder b) = b_i b" "b_n (widen_builder b) = b_n b"
  "b_da (widen_builder b) = map widen (b_da b)" "b_tail (widen_builder b) = b_tail b"
  "b_table (widen_builder b) = b_table b" "b_used_bases (widen_builder b) = b_used_bases b"
  "b_elink (widen_builder b) = b_elink b" "b_stat (widen_builder b) = b_stat b"
  by (simp_all add: widen_builder_def)

lemma wb_upd [simp]:
  "(widen_builder b)\<lparr> b_elink := el \<rparr> = widen_builder (b\<lparr> b_elink := el \<rparr>)"
  "(widen_builder b)\<lparr> b_stat := st \<rparr> = widen_builder (b\<lparr> b_stat := st \<rparr>)"
  "(widen_builder b)\<lparr> b_tail := tb2 \<rparr> = widen_builder (b\<lparr> b_tail := tb2 \<rparr>)"
  "(widen_builder b)\<lparr> b_table := tb \<rparr> = widen_builder (b\<lparr> b_table := tb \<rparr>)"
  "(widen_builder b)\<lparr> b_used_bases := ub \<rparr> = widen_builder (b\<lparr> b_used_bases := ub \<rparr>)"
  "(widen_builder b)\<lparr> b_i := i \<rparr> = widen_builder (b\<lparr> b_i := i \<rparr>)"
  "(widen_builder b)\<lparr> b_n := n \<rparr> = widen_builder (b\<lparr> b_n := n \<rparr>)"
  "(widen_builder b)\<lparr> b_da := map widen da \<rparr> = widen_builder (b\<lparr> b_da := da \<rparr>)"
  by (simp_all add: widen_builder_def)

lemma wb_add_base_trial [simp]: "add_base_trial (widen_builder b) = widen_builder (add_base_trial b)"
  by (simp add: add_base_trial_def)

lemma wb_vlist_next [simp]: "vlist_next (widen_builder b) i = vlist_next b i"
  by (simp add: vlist_next_def)

lemma wb_vlist_expand [simp]: "vlist_expand (widen_builder b) n = widen_builder (vlist_expand b n)"
  by (simp add: vlist_expand_def Let_def)

lemma wb_da_expand [simp]:
  "da_expand doublearray5_traits (widen_builder b) n = widen_builder (da_expand doublearray4_traits b n)"
proof -
  have "map widen (b_da b) @ replicate k (default_value doublearray5_traits)
        = map widen (b_da b @ replicate k 0)" for k
    by simp
  then show ?thesis
    unfolding da_expand_def by (simp del: map_append)
qed

lemma wb_da_in_use [simp]:
  "da_in_use doublearray5_traits (widen_builder b) i = da_in_use doublearray4_traits b i"
  by (auto simp: da_in_use_def builder_get_base_def)

lemma wb_register_base [simp]:
  "register_base (widen_builder b) base = widen_builder (register_base b base)"
  by (simp add: register_base_def Let_def)

lemma wb_vlist_use [simp]:
  "vlist_use (widen_builder b) i = map_sum id widen_builder (vlist_use b i)"
  by (simp add: vlist_use_def Let_def)

lemma wb_set_base:
  "base4_range v \<Longrightarrow> builder_set_base doublearray5_traits (widen_builder b) i v
     = map_sum id widen_builder (builder_set_base doublearray4_traits b i v)"
proof -
  assume r: "base4_range v"
  have "(map widen da)[i := set_base5 (map widen da ! i) v] = map widen (da[i := set_base4 (da ! i) v])"
    if "i < length da" for da
    using that by (simp add: map_update widen_set_base[OF r])
  then show ?thesis
    by (simp add: builder_set_base_def)
qed

lemma wb_set_check [simp]:
  "builder_set_check doublearray5_traits (widen_builder b) i k
     = map_sum id widen_builder (builder_set_check doublearray4_traits b i k)"
proof -
  have "(map widen da)[i := set_check5 (map widen da ! i) k] = map widen (da[i := set_check4 (da ! i) k])"
    if "i < length da" for da
    using that by (simp add: map_update)
  then show ?thesis
    by (simp add: builder_set_check_def)
qed

lemma wb_write_leaf [simp]:
  "write_leaf V p r (widen_builder b) = widen_builder (write_leaf V p r b)"
  by (simp add: write_leaf_def)

lemma wb_add_node [simp]: "add_node (widen_builder b) = widen_builder (add_node b)"
  by (simp add: add_node_def)

lemma find_base_widen:
  "find_base doublearray5_traits n children mo idx (widen_builder b)
     = map_sum id (map_prod id widen_builder) (find_base doublearray4_traits n children mo idx b)"
proof (induction n arbitrary: idx b)
  case 0
  then show ?case by (simp add: find_base.simps)
next
  case (Suc n)
  show ?case
    unfolding find_base_Suc by (simp add: Suc.IH)
qed

lemma reserve_children_widen:
  "reserve_children doublearray5_traits base children (widen_builder b)
     = map_sum id widen_builder (reserve_children doublearray4_traits base children b)"
proof (induction children arbitrary: b)
  case Nil
  then show ?case by (simp add: reserve_children.simps)
next
  case (Cons ch children)
  show ?case
    by (simp add: reserve_children.simps wb_set_base Cons.IH split: sum.splits)
qed

lemma base4_range_of_nat:
  assumes "n \<le> 0x7FFFFF"
  shows "base4_range (of_nat n)" and "base4_range (- of_nat n)"
proof -
  have s: "sint (of_nat n :: 32 word) = int n"
    using assms by (simp add: signed_of_nat signed_take_bit_int_eq_self)
  have "sint (- of_nat n :: 32 word) = - int n"
  proof -
    have "(- of_nat n :: 32 word) = word_of_int (- int n)" by simp
    then have "sint (- of_nat n :: 32 word) = signed_take_bit 31 (- int n)"
      by (simp only: sint_sbintrunc') simp
    also have "\<dots> = - int n"
      using assms by (intro signed_take_bit_int_eq_self) simp_all
    finally show ?thesis .
  qed
  with s assms show "base4_range (of_nat n)" "base4_range (- of_nat n)"
    by (simp_all add: base4_range_def)
qed

lemma set_children_widen:
  assumes "\<And>ch b v b'. ch \<in> set children \<Longrightarrow> arr4 ch b = Inr (v, b')
             \<Longrightarrow> arr5 ch (widen_builder b) = Inr (v, widen_builder b') \<and> base4_range v"
  shows "set_children arr4 doublearray4_traits base children b = Inr b'
     \<Longrightarrow> set_children arr5 doublearray5_traits base children (widen_builder b) = Inr (widen_builder b')"
  using assms
proof (induction children arbitrary: b)
  case Nil
  then show ?case by (simp add: set_children.simps)
next
  case (Cons ch children)
  from Cons.prems(1) obtain v b1 b2 b3 where
    a: "arr4 ch b = Inr (v, b1)"
    and s2: "builder_set_base doublearray4_traits b1 (base + c_offset ch) v = Inr b2"
    and s3: "builder_set_check doublearray4_traits b2 (base + c_offset ch) (of_nat (c_offset ch - 1)) = Inr b3"
    and r: "set_children arr4 doublearray4_traits base children b3 = Inr b'"
    by (auto simp: set_children.simps split: sum.splits prod.splits)
  from Cons.prems(2)[OF _ a] have a5: "arr5 ch (widen_builder b) = Inr (v, widen_builder b1)"
    and rv: "base4_range v" by simp_all
  have r5: "set_children arr5 doublearray5_traits base children (widen_builder b3) = Inr (widen_builder b')"
    by (rule Cons.IH[OF r]) (use Cons.prems(2) in auto)
  show ?case
    using a5 s2 s3 r5 by (simp add: set_children.simps wb_set_base[OF rv])
qed

lemma arrange_widen:
  "arrange doublearray4_traits V n p recs b = Inr (v, b')
     \<Longrightarrow> arrange doublearray5_traits V n p recs (widen_builder b) = Inr (v, widen_builder b')
         \<and> base4_range v"
proof (induction n arbitrary: p recs b v b')
  case 0
  then show ?case by (simp add: arrange.simps)
next
  case (Suc n)
  show ?case
  proof (cases "length recs = 1")
    case True
    then obtain x where x: "recs = [x]" by (cases recs) auto
    from Suc.prems have l: "length (b_tail b) \<le> 0x7FFFFF"
      and v: "v = - of_nat (length (b_tail b))" and b': "b' = write_leaf V p x b"
      unfolding x arrange_leaf by (auto split: if_splits)
    from base4_range_of_nat(2)[OF l] l v b' show ?thesis
      unfolding x arrange_leaf by simp
  next
    case False
    let ?arr4 = "\<lambda>child b. if c_c child \<noteq> 0
                   then arrange doublearray4_traits V n (p + 1) (c_records child) b
                   else if length (c_records child) \<noteq> 1 then Inl DuplicatedKeys
                   else arrange doublearray4_traits V n p (c_records child) b"
    let ?arr5 = "\<lambda>child b. if c_c child \<noteq> 0
                   then arrange doublearray5_traits V n (p + 1) (c_records child) b
                   else if length (c_records child) \<noteq> 1 then Inl DuplicatedKeys
                   else arrange doublearray5_traits V n p (c_records child) b"
    from Suc.prems False obtain children mo base b1 b2 b3 where
      sc: "scan_children (b_table b) p (- 1) [] 0 recs = Inr (children, mo)"
      and ne: "children \<noteq> []"
      and fb: "find_base doublearray4_traits n children mo 0 b = Inr (base, b1)"
      and le: "\<not> unat (0x7FFFFF :: 32 word) \<le> base + mo"
      and rc: "reserve_children doublearray4_traits base children (register_base b1 base) = Inr b2"
      and st: "set_children ?arr4 doublearray4_traits base children b2 = Inr b3"
      and v: "v = of_nat base" and b': "b' = add_node b3"
      by (auto simp: arrange_node split: sum.splits prod.splits if_splits)
    from le have bl: "base \<le> 0x7FFFFF" and le5: "\<not> unat (0x7FFFFFFF :: 32 word) \<le> base + mo"
      by simp_all
    have st5: "set_children ?arr5 doublearray5_traits base children (widen_builder b2)
                 = Inr (widen_builder b3)"
    proof (rule set_children_widen[OF _ st])
      fix ch bx vx bx' assume "ch \<in> set children" and a: "?arr4 ch bx = Inr (vx, bx')"
      show "?arr5 ch (widen_builder bx) = Inr (vx, widen_builder bx') \<and> base4_range vx"
      proof (cases "c_c ch \<noteq> 0")
        case True
        with a Suc.IH[of "p + 1" "c_records ch" bx vx bx'] show ?thesis by simp
      next
        case c0: False
        show ?thesis
        proof (cases "length (c_records ch) \<noteq> 1")
          case True
          with a c0 show ?thesis by simp
        next
          case False
          with a c0 Suc.IH[of p "c_records ch" bx vx bx'] show ?thesis by simp
        qed
      qed
    qed
    have "arrange doublearray5_traits V (Suc n) p recs (widen_builder b) = Inr (v, widen_builder b')"
      unfolding arrange_node[OF False]
      using sc ne le5 fb rc st5 v b' by (simp add: find_base_widen reserve_children_widen)
    with base4_range_of_nat(1)[OF bl] v show ?thesis by simp
  qed
qed

lemma wb_clear [simp]:
  "clear doublearray5_traits (widen_builder b) = widen_builder (clear doublearray4_traits b)"
  by (simp add: clear_def Let_def vlist_init_def da_expand_def widen_builder_def)

lemma wb_init [simp]: "widen_builder builder_init = builder_init"
  by (simp add: widen_builder_def builder_init_def)

lemma build_widen:
  assumes "build doublearray4_traits V srt n b recs = Inr b4"
  shows "\<exists>b5. build doublearray5_traits V srt n (widen_builder b) recs = Inr b5
           \<and> b_da b5 = map widen (b_da b4) \<and> b_tail b5 = b_tail b4 \<and> b_table b5 = b_table b4"
proof -
  let ?b1 = "(clear doublearray4_traits b)\<lparr> b_i := 0, b_n := length recs \<rparr>"
  let ?b2 = "?b1\<lparr> b_table := build_table srt (b_table ?b1) recs \<rparr>"
  let ?b3 = "vlist_expand (da_expand doublearray4_traits ?b2 (INITIAL_INDEX + 1)) (INITIAL_INDEX + 1)"
  from assms obtain b4' b5' v b6 b7 where
    s4: "builder_set_base doublearray4_traits ?b3 INITIAL_INDEX 1 = Inr b4'"
    and u: "vlist_use b4' INITIAL_INDEX = Inr b5'"
    and a: "arrange doublearray4_traits V n 0 recs b5' = Inr (v, b6)"
    and s7: "builder_set_base doublearray4_traits b6 INITIAL_INDEX v = Inr b7"
    and r: "b4 = compute_stat doublearray4_traits b7"
    unfolding build_def Let_def by (auto split: sum.splits prod.splits)
  from arrange_widen[OF a] have a5: "arrange doublearray5_traits V n 0 recs (widen_builder b5')
       = Inr (v, widen_builder b6)" and rv: "base4_range v" by simp_all
  have "build doublearray5_traits V srt n (widen_builder b) recs
          = Inr (compute_stat doublearray5_traits (widen_builder b7))"
    unfolding build_def Let_def
    using s4 u a5 s7 by (simp add: wb_set_base wb_set_base[OF rv])
  moreover have "b_da (compute_stat doublearray5_traits (widen_builder b7)) = map widen (b_da b4)"
    "b_tail (compute_stat doublearray5_traits (widen_builder b7)) = b_tail b4"
    "b_table (compute_stat doublearray5_traits (widen_builder b7)) = b_table b4"
    by (simp_all add: r compute_stat_def)
  ultimately show ?thesis by blast
qed

subsection \<open>The lookups do not see the width of the elements\<close>

lemma wt_fields [simp]:
  "m_tail (widen_trie tr) = m_tail tr" "m_table (widen_trie tr) = m_table tr"
  "a_size (m_da (widen_trie tr)) = a_size (m_da tr)"
  by (simp_all add: widen_trie_def)

lemma wt_upd [simp]: "(widen_trie tr)\<lparr> m_tail := t \<rparr> = widen_trie (tr\<lparr> m_tail := t \<rparr>)"
  by (simp add: widen_trie_def)

lemma wt_array_at:
  "array_at (m_da (widen_trie tr)) i = map_sum id widen (array_at (m_da tr) i)"
  by (simp add: array_at_def widen_trie_def split: option.splits)

lemma wt_get_base [simp]:
  "trie_get_base doublearray5_traits (widen_trie tr) i = trie_get_base doublearray4_traits tr i"
  by (simp add: trie_get_base_def wt_array_at split: sum.splits)

lemma wt_get_check [simp]:
  "trie_get_check doublearray5_traits (widen_trie tr) i = trie_get_check doublearray4_traits tr i"
  by (simp add: trie_get_check_def wt_array_at split: sum.splits)

lemma wt_descend [simp]:
  "descend doublearray5_traits (widen_trie tr) i c = descend doublearray4_traits tr i c"
  by (simp add: descend_def Let_def split: sum.splits)

lemma wt_locate_loop [simp]:
  "locate_loop doublearray5_traits (widen_trie tr) cur p = locate_loop doublearray4_traits tr cur p"
proof (induction p arbitrary: cur)
  case Nil
  show ?case
    by (subst locate_loop.simps, subst (2) locate_loop.simps)
       (simp add: char_at_def del: locate_loop.simps split: sum.splits)
next
  case (Cons x xs)
  show ?case
    by (subst locate_loop.simps, subst (2) locate_loop.simps)
       (simp add: char_at_def Cons.IH del: locate_loop.simps split: sum.splits)
qed

lemma wt_locate:
  "locate doublearray5_traits (widen_trie tr) key
     = map_sum id (map_prod id widen_trie) (locate doublearray4_traits tr key)"
  by (simp add: locate_def Let_def del: locate_loop.simps
      split: sum.splits option.splits prod.splits bool.splits)

lemma wt_trie_in:
  "trie_in doublearray5_traits (widen_trie tr) key
     = map_sum id (map_prod id widen_trie) (trie_in doublearray4_traits tr key)"
  by (simp add: trie_in_def wt_locate del: locate_loop.simps split: sum.splits)

lemma wt_find:
  "find doublearray5_traits V (widen_trie tr) key
     = map_sum id (map_prod id (map_prod id widen_trie)) (find doublearray4_traits V tr key)"
  by (simp add: find_def wt_locate del: locate_loop.simps split: sum.splits)

lemma wt_next_prefix_loop:
  "next_prefix_loop doublearray5_traits V (widen_trie tr) pfx
     = map_sum id (\<lambda>(x, pfx', tr'). (x, pfx', widen_trie tr'))
         (next_prefix_loop doublearray4_traits V tr pfx)"
proof (induction "length (pc_query pfx) - pc_length pfx" arbitrary: pfx rule: less_induct)
  case less
  let ?c = "char_at (pc_query pfx) (pc_length pfx)"
  have IH: "next_prefix_loop doublearray5_traits V (widen_trie tr) (pfx\<lparr> pc_cur := cur', pc_length := Suc (pc_length pfx) \<rparr>)
     = map_sum id (\<lambda>(x, pfx', tr'). (x, pfx', widen_trie tr'))
         (next_prefix_loop doublearray4_traits V tr (pfx\<lparr> pc_cur := cur', pc_length := Suc (pc_length pfx) \<rparr>))"
    if "?c \<noteq> 0" for cur'
  proof (rule less.hyps)
    from that have "pc_length pfx < length (pc_query pfx)"
      by (auto simp: char_at_def split: if_splits)
    then show "length (pc_query (pfx\<lparr> pc_cur := cur', pc_length := Suc (pc_length pfx) \<rparr>))
                 - pc_length (pfx\<lparr> pc_cur := cur', pc_length := Suc (pc_length pfx) \<rparr>)
               < length (pc_query pfx) - pc_length pfx"
      by simp
  qed
  show ?case
    apply (subst next_prefix_loop.simps)
    apply (subst (2) next_prefix_loop.simps)
    apply (simp only: wt_descend wt_get_base wt_fields Let_def)
    apply (simp add: IH del: next_prefix_loop.simps split: sum.splits)
    done
qed

lemma wt_next_prefix:
  "next_prefix doublearray5_traits V (widen_trie tr) pfx
     = map_sum id (\<lambda>(x, pfx', tr'). (x, pfx', widen_trie tr'))
         (next_prefix doublearray4_traits V tr pfx)"
  by (simp add: next_prefix_def wt_next_prefix_loop Let_def del: next_prefix_loop.simps
      split: sum.splits prod.splits loop_exit.splits bool.splits)

lemma wt_cursor_next:
  "cursor_next doublearray5_traits V (widen_trie tr) pfx
     = map_sum id (\<lambda>(x, pfx', tr'). (x, pfx', widen_trie tr'))
         (cursor_next doublearray4_traits V tr pfx)"
  by (simp add: cursor_next_def wt_next_prefix)

lemma wt_cursor_run:
  "cursor_run doublearray5_traits V n (widen_trie tr) pfx = cursor_run doublearray4_traits V n tr pfx"
proof (induction n arbitrary: tr pfx)
  case 0
  then show ?case by simp
next
  case (Suc n)
  show ?case
    by (simp add: wt_cursor_next Suc.IH split: sum.splits prod.splits)
qed

lemma trie_of_builder_widen:
  assumes "b_da b5 = map widen (b_da b4)" "b_tail b5 = b_tail b4" "b_table b5 = b_table b4"
  shows "trie_of_builder b5 = widen_trie (trie_of_builder b4)"
  by (simp add: trie_of_builder_def assign_builder_def widen_trie_def trie_init_def assms
      array_assign_def take_map array_empty_def)

text \<open>
  C8 (width neutrality). Whenever \<^verbatim>\<open>build\<close> with the 4-byte traits returns, \<^verbatim>\<open>build\<close> with the
  5-byte traits returns for the same records (same value codec, same \<^verbatim>\<open>std::sort\<close>, same bound
  on the loops, both builders freshly constructed), and on the two tries that take the
  arrays of the two builders \<^verbatim>\<open>in(k)\<close>, \<^verbatim>\<open>find(k)\<close> and any number of calls of \<^verbatim>\<open>next()\<close> of a
  prefix cursor give the same results for every key and query: the same flag, the same value,
  the same length of the prefix, the same undefined behaviour if there is any. That the
  records are sorted and unique follows from the success of the build.
\<close>

theorem width_neutrality:
  assumes "build doublearray4_traits V std_sort fuel builder_init recs = Inr b4"
  shows "\<exists>b5. build doublearray5_traits V std_sort fuel builder_init recs = Inr b5
     \<and> (\<forall>k. in_result (trie_in doublearray5_traits (trie_of_builder b5) k)
            = in_result (trie_in doublearray4_traits (trie_of_builder b4) k))
     \<and> (\<forall>k. find_result (find doublearray5_traits V (trie_of_builder b5) k)
            = find_result (find doublearray4_traits V (trie_of_builder b4) k))
     \<and> (\<forall>q n. cursor_run doublearray5_traits V n (trie_of_builder b5) (prefix q)
            = cursor_run doublearray4_traits V n (trie_of_builder b4) (prefix q))"
proof -
  from build_widen[OF assms] obtain b5 where
    b5: "build doublearray5_traits V std_sort fuel builder_init recs = Inr b5"
    and f: "b_da b5 = map widen (b_da b4)" "b_tail b5 = b_tail b4" "b_table b5 = b_table b4"
    by auto
  note t = trie_of_builder_widen[OF f]
  have "in_result (trie_in doublearray5_traits (trie_of_builder b5) k)
            = in_result (trie_in doublearray4_traits (trie_of_builder b4) k)" for k
    unfolding t wt_trie_in in_result_def
    by (cases "trie_in doublearray4_traits (trie_of_builder b4) k") auto
  moreover have "find_result (find doublearray5_traits V (trie_of_builder b5) k)
            = find_result (find doublearray4_traits V (trie_of_builder b4) k)" for k
    unfolding t wt_find find_result_def
    by (cases "find doublearray4_traits V (trie_of_builder b4) k") auto
  moreover have "cursor_run doublearray5_traits V n (trie_of_builder b5) (prefix q)
            = cursor_run doublearray4_traits V n (trie_of_builder b4) (prefix q)" for q n
    unfolding t by (rule wt_cursor_run)
  ultimately show ?thesis using b5 by blast
qed

subsection \<open>The keys \<open>aa\<close> and \<open>ab\<close> with elements of 4 bytes\<close>

lemma get_base4_0 [simp]: "get_base4 0 = 0"
  by (simp add: get_base4_def)

lemma get_base4_in_range [simp]: "base4_range v \<Longrightarrow> get_base4 (set_base4 e v) = v"
  by (rule get_base4_set_base4, rule signed_take_bit_23_self) (simp_all add: base4_range_def)

lemma base4_range_num [simp]: "base4_range 2" "base4_range (- 4)" "base4_range (- 5)"
  by (simp_all add: base4_range_def)

lemma build_prelude4:
  "build doublearray4_traits V srt fuel builder_init recs =
     (case arrange doublearray4_traits V fuel 0 recs
             (b_start4 (length recs) (build_table srt (\<lambda>i. i) recs)) of
        Inl e \<Rightarrow> Inl e
      | Inr (v, b6) \<Rightarrow>
          (case builder_set_base doublearray4_traits b6 INITIAL_INDEX v of
             Inl e \<Rightarrow> Inl e
           | Inr b7 \<Rightarrow> Inr (compute_stat doublearray4_traits b7)))"
  by (simp add: build_def clear_def da_expand_def vlist_init_def vlist_expand_def
      elink_resize_def builder_set_base_def vlist_use_def INITIAL_INDEX_def SIZEOF_INT_def
      builder_init_def Let_def b_start4_def numeral_eq_Suc)

lemma arrange4_aa_ab:
  assumes t: "tbl 0x61 = 0" "tbl 0 = 1" "tbl 0x62 = 2"
  shows "\<exists>v b. arrange doublearray4_traits empty_type (Suc (Suc (Suc 0))) 0 recs_aa_ab (b_start4 2 tbl)
     = Inr (v, b) \<and> 1 < length (b_da b)"
  apply (simp add: recs_aa_ab_def arrange_node b_start4_def)
  apply (simp add: t ph_scan)
  apply (simp add: ph_find get_base4_set_check4)
  apply (simp add: ph_reserve)
  apply (simp add: set_children.simps)
  apply (simp add: arrange_node)
  apply (simp add: t ph_scan)
  apply (simp add: ph_find get_base4_set_check4)
  apply (simp add: ph_reserve)
  apply (simp add: ph_leaf empty_type_def)
  done

lemma build4_aa_ab:
  "\<exists>b4. build doublearray4_traits empty_type stable_sort (Suc (Suc (Suc 0))) builder_init recs_aa_ab = Inr b4"
proof -
  have len: "length recs_aa_ab = 2" by (simp add: recs_aa_ab_def)
  from arrange4_aa_ab[OF table_aa_ab[OF std_sort_spec_stable_sort, of "\<lambda>i. i"]]
  obtain v b where
    a: "arrange doublearray4_traits empty_type (Suc (Suc (Suc 0))) 0 recs_aa_ab
          (b_start4 2 (build_table stable_sort (\<lambda>i. i) recs_aa_ab)) = Inr (v, b)"
    and l: "1 < length (b_da b)"
    by blast
  show ?thesis
    using l by (simp add: build_prelude4 len a builder_set_base_def INITIAL_INDEX_def)
qed

theorem width_neutrality_witness:
  "\<exists>b4. build doublearray4_traits empty_type stable_sort (Suc (Suc (Suc 0))) builder_init recs_aa_ab = Inr b4
     \<and> (\<exists>b5. build doublearray5_traits empty_type stable_sort (Suc (Suc (Suc 0))) builder_init recs_aa_ab = Inr b5
     \<and> (\<forall>k. in_result (trie_in doublearray5_traits (trie_of_builder b5) k)
            = in_result (trie_in doublearray4_traits (trie_of_builder b4) k))
     \<and> (\<forall>k. find_result (find doublearray5_traits empty_type (trie_of_builder b5) k)
            = find_result (find doublearray4_traits empty_type (trie_of_builder b4) k))
     \<and> (\<forall>q n. cursor_run doublearray5_traits empty_type n (trie_of_builder b5) (prefix q)
            = cursor_run doublearray4_traits empty_type n (trie_of_builder b4) (prefix q))
     \<and> find_result (find doublearray4_traits empty_type (trie_of_builder b4) [0x61, 0x61])
            = Inr (True, None))"
proof -
  from build4_aa_ab obtain b4 where
    b: "build doublearray4_traits empty_type stable_sort (Suc (Suc (Suc 0))) builder_init recs_aa_ab = Inr b4"
    by blast
  from width_neutrality[OF b] obtain b5 where
    b5: "build doublearray5_traits empty_type stable_sort (Suc (Suc (Suc 0))) builder_init recs_aa_ab = Inr b5"
    and i: "\<forall>k. in_result (trie_in doublearray5_traits (trie_of_builder b5) k)
            = in_result (trie_in doublearray4_traits (trie_of_builder b4) k)"
    and f: "\<forall>k. find_result (find doublearray5_traits empty_type (trie_of_builder b5) k)
            = find_result (find doublearray4_traits empty_type (trie_of_builder b4) k)"
    and c: "\<forall>q n. cursor_run doublearray5_traits empty_type n (trie_of_builder b5) (prefix q)
            = cursor_run doublearray4_traits empty_type n (trie_of_builder b4) (prefix q)"
    by blast
  have "find_result (find doublearray5_traits empty_type (trie_of_builder b5) [0x61, 0x61]) = Inr (True, None)"
    by (simp add: find_aa_ab(2)[OF std_sort_spec_stable_sort b5] find_result_def)
  with f have "find_result (find doublearray4_traits empty_type (trie_of_builder b4) [0x61, 0x61])
            = Inr (True, None)"
    by simp
  with b b5 i f c show ?thesis by blast
qed

end
